theory Spec2Isabelle
  imports Main "HOL-Library.Word" "HOL-Library.Monad_Syntax"
begin

unbundle bit_operations_syntax

section \<open>Common types\<close>

type_synonym byte = "8 word"
type_synonym bytes = "byte list"

text \<open>
  A \<open>std::chrono::steady_clock::time_point\<close> is a tick count of nanoseconds since the
  clock's epoch. \<open>duration_cast\<close> to a coarser unit is C++ integer division, which
  truncates towards zero.
\<close>

type_synonym time_point = int

definition cpp_div :: "int \<Rightarrow> int \<Rightarrow> int" where
  "cpp_div a b = sgn a * sgn b * (\<bar>a\<bar> div \<bar>b\<bar>)"

definition elapsed_ms :: "time_point \<Rightarrow> time_point \<Rightarrow> int" where
  "elapsed_ms now t = cpp_div (now - t) 1000000"

definition elapsed_s :: "time_point \<Rightarrow> time_point \<Rightarrow> int" where
  "elapsed_s now t = cpp_div (now - t) 1000000000"

section \<open>fpga\_interface: the software compression operation\<close>

datatype FPGAOperationType =
    CRYPTO_ENCRYPT
  | CRYPTO_DECRYPT
  | COMPRESSION
  | DECOMPRESSION
  | PACKET_FRAMING
  | PACKET_ACK_PROCESSING
  | PACKET_RETRANSMISSION

record FPGAOperationResult =
  success :: bool
  data :: bytes
  bytesProcessed :: "32 word"
  errorMessage :: string

text \<open>
  The inner \<open>while\<close> of the encoder: starting from \<open>count\<close>, count the bytes that
  follow position \<open>i\<close> and equal \<open>currentByte\<close>, stopping at 255. The list argument
  is the input after position \<open>i + count - 1\<close>.
\<close>

fun count_run :: "byte \<Rightarrow> bytes \<Rightarrow> nat \<Rightarrow> nat" where
  "count_run currentByte [] count = count"
| "count_run currentByte (x # xs) count =
     (if x = currentByte \<and> count < 255 then count_run currentByte xs (count + 1) else count)"

text \<open>
  The outer \<open>for\<close> of the encoder, on the input from position \<open>i\<close> on: a run of at
  least four equal bytes becomes marker \<open>0xFF\<close>, count, value; a shorter run is copied.
\<close>

function rle_encode :: "bytes \<Rightarrow> bytes" where
  "rle_encode [] = []"
| "rle_encode (currentByte # xs) =
     (let count = count_run currentByte xs 1 in
      (if count \<ge> 4 then [0xFF, of_nat count, currentByte]
       else replicate count currentByte) @ rle_encode (drop (count - 1) xs))"
  by pat_completeness auto
termination
  by (relation "measure length") auto

text \<open>
  The decoder's \<open>for\<close>, on the input from position \<open>i\<close> on: a byte \<open>0xFF\<close> with at
  least two bytes after it (\<open>i + 2 < size\<close>) is a repeat record, anything else a literal.
\<close>

fun rle_decode :: "bytes \<Rightarrow> bytes" where
  "rle_decode (m # c # v # rest) =
     (if m = 0xFF then replicate (unat c) v @ rle_decode rest
      else m # rle_decode (c # v # rest))"
| "rle_decode (m # rest) = m # rle_decode rest"
| "rle_decode [] = []"

definition size_le32 :: "nat \<Rightarrow> bytes" where
  "size_le32 n =
     (let size = (of_nat n :: 32 word) in
      [ucast (size AND 0xFF), ucast (drop_bit 8 size AND 0xFF),
       ucast (drop_bit 16 size AND 0xFF), ucast (drop_bit 24 size AND 0xFF)])"

definition simulateCompressionOperation ::
  "FPGAOperationType \<Rightarrow> bytes \<Rightarrow> FPGAOperationResult" where
  "simulateCompressionOperation operationType inputData =
     (if operationType = COMPRESSION then
        \<lparr>success = True,
         data = [0x51, 0x43, 0x4D, 0x50] @ size_le32 (length inputData) @ rle_encode inputData,
         bytesProcessed = of_nat (length inputData), errorMessage = []\<rparr>
      else if length inputData < 8 \<or> inputData ! 0 \<noteq> 0x51 \<or> inputData ! 1 \<noteq> 0x43
                \<or> inputData ! 2 \<noteq> 0x4D \<or> inputData ! 3 \<noteq> 0x50 then
        \<lparr>success = False, data = [],
         bytesProcessed = of_nat (length inputData),
         errorMessage = ''Invalid compression format''\<rparr>
      else
        \<lparr>success = True, data = rle_decode (drop 8 inputData),
         bytesProcessed = of_nat (length inputData), errorMessage = []\<rparr>)"

definition compress :: "bytes \<Rightarrow> FPGAOperationResult" where
  "compress B = simulateCompressionOperation COMPRESSION B"

definition decompress :: "bytes \<Rightarrow> FPGAOperationResult" where
  "decompress B = simulateCompressionOperation DECOMPRESSION B"

section \<open>quic\_handler: data\<close>

datatype QUICPacketType =
    INITIAL
  | HANDSHAKE
  | ZERO_RTT
  | ONE_RTT
  | RETRY
  | VERSION_NEGOTIATION

record QUICPacketHeader =
  h_type :: QUICPacketType
  h_version :: "32 word"
  h_destConnID :: bytes
  h_srcConnID :: bytes
  h_token :: bytes
  h_length :: "64 word"
  h_packetNumber :: "32 word"

record PacketInfo =
  packetNumber :: "32 word"
  sentTime :: time_point
  acknowledged :: bool
  packetData :: bytes

text \<open>
  The accelerator as the handler sees it: whether it is connected, and what
  \<open>executePacketOperation\<close> answers. It is a parameter of every handler operation.
\<close>

record FPGAInterface =
  isConnected :: bool
  executePacketOperation ::
    "FPGAOperationType \<Rightarrow> bytes \<Rightarrow> 64 word \<Rightarrow> 32 word \<Rightarrow> FPGAOperationResult"

text \<open>
  The members of \<open>QUICHandler\<close>. The UDP socket is write-only for the handler, so it is
  modelled by \<open>sent_datagrams\<close>, the datagrams handed to \<open>sendto\<close>, oldest first.
\<close>

record QUICHandler =
  m_clientKey :: string
  m_accelerationEnabled :: bool
  m_connected :: bool
  m_lastActivity :: time_point
  m_bytesSent :: "64 word"
  m_bytesReceived :: "64 word"
  m_packetsSent :: "64 word"
  m_packetsReceived :: "64 word"
  m_connectionID :: "64 word"
  m_nextPacketNumber :: "32 word"
  m_destConnID :: bytes
  m_srcConnID :: bytes
  m_sentPackets :: "PacketInfo list"
  m_receivedPackets :: "32 word list"
  sent_datagrams :: "bytes list"

definition IDLE_TIMEOUT_MS :: int where
  "IDLE_TIMEOUT_MS = 30000"

definition RETRANSMIT_TIMEOUT_MS :: int where
  "RETRANSMIT_TIMEOUT_MS = 500"

definition MAX_CONN_ID_LEN :: nat where
  "MAX_CONN_ID_LEN = 20"

text \<open>
  The constructor; \<open>connID\<close> stands for the eight bytes drawn from \<open>RAND_bytes\<close> and
  \<open>now\<close> for the clock reading of \<open>updateActivity\<close>.
\<close>

definition QUICHandler_new :: "string \<Rightarrow> bool \<Rightarrow> bytes \<Rightarrow> time_point \<Rightarrow> QUICHandler" where
  "QUICHandler_new clientKey accelerationEnabled connID now =
     \<lparr>m_clientKey = clientKey,
      m_accelerationEnabled = accelerationEnabled,
      m_connected = True,
      m_lastActivity = now,
      m_bytesSent = 0, m_bytesReceived = 0, m_packetsSent = 0, m_packetsReceived = 0,
      m_connectionID = fold (\<lambda>b acc. push_bit 8 acc OR ucast b) connID 0,
      m_nextPacketNumber = 0,
      m_destConnID = [],
      m_srcConnID = connID,
      m_sentPackets = [],
      m_receivedPackets = [],
      sent_datagrams = []\<rparr>"

definition updateActivity :: "time_point \<Rightarrow> QUICHandler \<Rightarrow> QUICHandler" where
  "updateActivity now s = s\<lparr>m_lastActivity := now\<rparr>"

definition isActive :: "time_point \<Rightarrow> QUICHandler \<Rightarrow> bool" where
  "isActive now s \<longleftrightarrow> m_connected s \<and> elapsed_ms now (m_lastActivity s) < IDLE_TIMEOUT_MS"

section \<open>quic\_handler: parsePacket\<close>

text \<open>Four bytes at \<open>offset\<close>, most significant first.\<close>

definition be32 :: "bytes \<Rightarrow> nat \<Rightarrow> 32 word" where
  "be32 d offset =
     push_bit 24 (ucast (d ! offset)) OR push_bit 16 (ucast (d ! (offset + 1)))
       OR push_bit 8 (ucast (d ! (offset + 2))) OR ucast (d ! (offset + 3))"

text \<open>\<open>v.assign(data + a, data + b)\<close>.\<close>

definition subrange :: "bytes \<Rightarrow> nat \<Rightarrow> nat \<Rightarrow> bytes" where
  "subrange d a b = take (b - a) (drop a d)"

text \<open>
  The header object that \<open>processIncomingPacket\<close> declares before parsing: its vectors are
  empty and its scalar members are not initialised; they are written before they are read,
  and stand as zero here.
\<close>

definition header0 :: QUICPacketHeader where
  "header0 = \<lparr>h_type = INITIAL, h_version = 0, h_destConnID = [], h_srcConnID = [],
              h_token = [], h_length = 0, h_packetNumber = 0\<rparr>"

definition long_type :: "byte \<Rightarrow> QUICPacketType option" where
  "long_type firstByte =
     (let packetType = drop_bit 4 (firstByte AND 0x30) in
      if packetType = 0 then Some INITIAL
      else if packetType = 1 then Some ZERO_RTT
      else if packetType = 2 then Some HANDSHAKE
      else if packetType = 3 then Some RETRY
      else None)"

definition extract_payload :: "bytes \<Rightarrow> nat \<Rightarrow> bytes" where
  "extract_payload d offset =
     (if offset < length d then subrange d offset (length d) else [])"

text \<open>The long header from the payload-length byte on.\<close>

definition parse_long_length :: "bytes \<Rightarrow> QUICPacketHeader \<Rightarrow> nat \<Rightarrow> (QUICPacketHeader \<times> bytes) option" where
  "parse_long_length d header offset =
     (if offset + 1 > length d then None
      else let payloadLen = d ! offset; o1 = offset + 1 in
        if payloadLen > 0x3F then None
        else if o1 + 4 > length d then None
        else Some (header\<lparr>h_length := ucast payloadLen, h_packetNumber := be32 d o1\<rparr>,
                   extract_payload d (o1 + 4)))"

text \<open>The token of an Initial packet, then the rest.\<close>

definition parse_long_token :: "bytes \<Rightarrow> QUICPacketHeader \<Rightarrow> nat \<Rightarrow> (QUICPacketHeader \<times> bytes) option" where
  "parse_long_token d header offset =
     (if h_type header = INITIAL then
        (if offset + 1 > length d then None
         else let tokenLen = d ! offset; o1 = offset + 1 in
           if tokenLen > 0x3F then None
           else if o1 + unat tokenLen > length d then None
           else parse_long_length d
                  (header\<lparr>h_token := subrange d o1 (o1 + unat tokenLen)\<rparr>) (o1 + unat tokenLen))
      else parse_long_length d header offset)"

text \<open>The two connection IDs, each behind its length byte, then the rest.\<close>

definition parse_long_cids :: "bytes \<Rightarrow> QUICPacketHeader \<Rightarrow> nat \<Rightarrow> (QUICPacketHeader \<times> bytes) option" where
  "parse_long_cids d header offset =
     (if offset + 1 > length d then None
      else let destConnIDLen = unat (d ! offset); o1 = offset + 1 in
        if o1 + destConnIDLen > length d then None
        else let header = header\<lparr>h_destConnID := subrange d o1 (o1 + destConnIDLen)\<rparr>;
                 o2 = o1 + destConnIDLen in
          if o2 + 1 > length d then None
          else let srcConnIDLen = unat (d ! o2); o3 = o2 + 1 in
            if o3 + srcConnIDLen > length d then None
            else parse_long_token d
                   (header\<lparr>h_srcConnID := subrange d o3 (o3 + srcConnIDLen)\<rparr>)
                   (o3 + srcConnIDLen))"

definition parse_short :: "bytes \<Rightarrow> QUICPacketHeader \<Rightarrow> nat \<Rightarrow> (QUICPacketHeader \<times> bytes) option" where
  "parse_short d header offset =
     (let DCID_LEN = 8 in
      if offset + DCID_LEN > length d then None
      else let header = header\<lparr>h_type := ONE_RTT,
                                 h_destConnID := subrange d offset (offset + DCID_LEN)\<rparr>;
               o1 = offset + DCID_LEN in
        if o1 + 4 > length d then None
        else Some (header\<lparr>h_packetNumber := be32 d o1,
                           h_length := of_nat (length d - (o1 + 4))\<rparr>,
                   extract_payload d (o1 + 4)))"

text \<open>
  \<open>parsePacket(data, length, header, payload)\<close>: the argument is the \<open>length\<close> bytes at
  \<open>data\<close>; \<open>None\<close> is the return value \<open>false\<close>, \<open>Some\<close> carries the two out-parameters.
\<close>

definition parsePacket :: "bytes \<Rightarrow> (QUICPacketHeader \<times> bytes) option" where
  "parsePacket d =
     (if length d < 4 then None
      else let firstByte = d ! 0; longHeader = (firstByte AND 0x80 \<noteq> 0) in
        if longHeader then
          (case long_type firstByte of
             None \<Rightarrow> None
           | Some t \<Rightarrow>
               if 1 + 4 > length d then None
               else let version = be32 d 1 in
                 parse_long_cids d
                   (header0\<lparr>h_type := (if version = 0 then VERSION_NEGOTIATION else t),
                            h_version := version\<rparr>) 5)
        else parse_short d header0 1)"

section \<open>quic\_handler: sending\<close>

definition be32_bytes :: "32 word \<Rightarrow> bytes" where
  "be32_bytes n =
     [ucast (drop_bit 24 n AND 0xFF), ucast (drop_bit 16 n AND 0xFF),
      ucast (drop_bit 8 n AND 0xFF), ucast (n AND 0xFF)]"

text \<open>
  What every successful send does after the bytes are ready: \<open>sendto\<close>, the two
  counters, a new \<open>PacketInfo\<close> at the back of \<open>m_sentPackets\<close> under the current
  packet number, and the increment of \<open>m_nextPacketNumber\<close> (32 bits, so it wraps).
\<close>

definition send_and_track :: "time_point \<Rightarrow> bytes \<Rightarrow> QUICHandler \<Rightarrow> QUICHandler" where
  "send_and_track now pkt s =
     s\<lparr>sent_datagrams := sent_datagrams s @ [pkt],
       m_bytesSent := m_bytesSent s + of_nat (length pkt),
       m_packetsSent := m_packetsSent s + 1,
       m_sentPackets := m_sentPackets s @
         [\<lparr>packetNumber = m_nextPacketNumber s, sentTime = now,
           acknowledged = False, packetData = pkt\<rparr>],
       m_nextPacketNumber := m_nextPacketNumber s + 1\<rparr>"

text \<open>A send that is not tracked (the accelerator's ACK packet).\<close>

definition send_untracked :: "bytes \<Rightarrow> QUICHandler \<Rightarrow> QUICHandler" where
  "send_untracked pkt s =
     s\<lparr>sent_datagrams := sent_datagrams s @ [pkt],
       m_bytesSent := m_bytesSent s + of_nat (length pkt),
       m_packetsSent := m_packetsSent s + 1\<rparr>"

definition first_byte :: "QUICPacketType \<Rightarrow> byte option" where
  "first_byte t =
     (case t of
        INITIAL \<Rightarrow> Some 0xC3
      | HANDSHAKE \<Rightarrow> Some 0xE3
      | ZERO_RTT \<Rightarrow> Some 0xD3
      | ONE_RTT \<Rightarrow> Some 0x40
      | _ \<Rightarrow> None)"

text \<open>
  The header bytes the software path writes in front of the payload. The two length bytes
  hold \<open>finalOffset - lengthOffset - 2\<close>, which is the packet number's four bytes plus
  the payload.
\<close>

definition software_header :: "QUICPacketType \<Rightarrow> byte \<Rightarrow> nat \<Rightarrow> QUICHandler \<Rightarrow> bytes" where
  "software_header t fb payload_size s =
     (if t \<noteq> ONE_RTT then
        [fb] @ be32_bytes 1
        @ [of_nat (length (m_destConnID s))] @ m_destConnID s
        @ [of_nat (length (m_srcConnID s))] @ m_srcConnID s
        @ (if t = INITIAL then [0] else [])
        @ [of_nat ((payload_size + 4) div 256 mod 256), of_nat ((payload_size + 4) mod 256)]
        @ be32_bytes (m_nextPacketNumber s)
      else
        [fb] @ m_destConnID s @ be32_bytes (m_nextPacketNumber s))"

text \<open>
  \<open>sendPacket\<close>. The result \<open>None\<close> stands for undefined behaviour: the software path
  writes header and payload into a vector of \<open>payload.size() + 64\<close> bytes without a bounds
  check, which is a write past its end when the header is longer than 64 bytes.
\<close>

definition sendPacket ::
  "FPGAInterface \<Rightarrow> time_point \<Rightarrow> QUICPacketType \<Rightarrow> bytes \<Rightarrow> QUICHandler
     \<Rightarrow> (bool \<times> QUICHandler) option" where
  "sendPacket fpga now t payload s =
     (let result = executePacketOperation fpga PACKET_FRAMING payload
                     (m_connectionID s) (m_nextPacketNumber s) in
      if m_accelerationEnabled s \<and> isConnected fpga \<and> success result then
        Some (True, send_and_track now (data result) s)
      else
        (case first_byte t of
           None \<Rightarrow> Some (False, s)
         | Some fb \<Rightarrow>
             let hdr = software_header t fb (length payload) s in
             if length hdr > 64 then None
             else Some (True, send_and_track now (hdr @ payload) s)))"

text \<open>\<open>*std::max_element\<close> on a non-empty vector.\<close>

definition max_element :: "32 word list \<Rightarrow> 32 word" where
  "max_element xs = fold max (tl xs) (hd xs)"

definition ack_frame :: "32 word \<Rightarrow> bytes" where
  "ack_frame largestAcked = [0x02] @ be32_bytes largestAcked @ [0x00, 0x00, 0x00, 0x00]"

definition sendAckPacket ::
  "FPGAInterface \<Rightarrow> time_point \<Rightarrow> 32 word list \<Rightarrow> QUICHandler \<Rightarrow> (bool \<times> QUICHandler) option" where
  "sendAckPacket fpga now packetNumbers s =
     (if packetNumbers = [] then Some (True, s)
      else let largestAcked = max_element packetNumbers;
               ackFrame = ack_frame largestAcked;
               result = executePacketOperation fpga PACKET_ACK_PROCESSING ackFrame
                          (m_connectionID s) largestAcked in
        if m_accelerationEnabled s \<and> isConnected fpga \<and> success result then
          Some (True, send_untracked (data result) s)
        else sendPacket fpga now ONE_RTT ackFrame s)"

section \<open>quic\_handler: frames and ACKs\<close>

text \<open>
  The ACK branch's loop over \<open>m_sentPackets\<close>: the first entry with the acknowledged
  packet number gets its flag set, then \<open>break\<close>.
\<close>

fun mark_acked :: "32 word \<Rightarrow> PacketInfo list \<Rightarrow> PacketInfo list" where
  "mark_acked ackedPacketNum [] = []"
| "mark_acked ackedPacketNum (packetInfo # rest) =
     (if packetNumber packetInfo = ackedPacketNum
      then packetInfo\<lparr>acknowledged := True\<rparr> # rest
      else packetInfo # mark_acked ackedPacketNum rest)"

text \<open>
  The \<open>while\<close> of \<open>processFrames\<close>; \<open>rest\<close> is the payload from \<open>offset\<close> on. An ACK,
  a CRYPTO and an unknown frame end the loop (\<open>offset = payload.size()\<close>); a STREAM frame
  returns what echoing the whole payload returns.
\<close>

fun processFrames_loop ::
  "FPGAInterface \<Rightarrow> time_point \<Rightarrow> bytes \<Rightarrow> bytes \<Rightarrow> QUICHandler \<Rightarrow> (bool \<times> QUICHandler) option" where
  "processFrames_loop fpga now payload [] s = Some (True, s)"
| "processFrames_loop fpga now payload (frameType # rest) s =
     (if frameType = 0x00 \<or> frameType = 0x01 then processFrames_loop fpga now payload rest s
      else if frameType = 0x02 \<or> frameType = 0x03 then
        Some (True,
          if 4 \<le> length rest
          then s\<lparr>m_sentPackets := mark_acked (be32 rest 0) (m_sentPackets s)\<rparr>
          else s)
      else if frameType = 0x06 then Some (True, s)
      else if 0x08 \<le> frameType \<and> frameType \<le> 0x0F then sendPacket fpga now ONE_RTT payload s
      else Some (True, s))"

definition processFrames ::
  "FPGAInterface \<Rightarrow> time_point \<Rightarrow> bytes \<Rightarrow> QUICHandler \<Rightarrow> (bool \<times> QUICHandler) option" where
  "processFrames fpga now payload s =
     (if payload = [] then Some (True, s) else processFrames_loop fpga now payload payload s)"

section \<open>quic\_handler: retransmission\<close>

text \<open>The first loop of \<open>checkForRetransmissions\<close>: the scan of the tracker.\<close>

definition packetsToRetransmit :: "time_point \<Rightarrow> QUICHandler \<Rightarrow> PacketInfo list" where
  "packetsToRetransmit now s =
     filter (\<lambda>packetInfo. \<not> acknowledged packetInfo
                \<and> elapsed_ms now (sentTime packetInfo) > RETRANSMIT_TIMEOUT_MS)
       (m_sentPackets s)"

fun update_sentTime :: "32 word \<Rightarrow> time_point \<Rightarrow> PacketInfo list \<Rightarrow> PacketInfo list" where
  "update_sentTime pn now [] = []"
| "update_sentTime pn now (info # rest) =
     (if packetNumber info = pn then info\<lparr>sentTime := now\<rparr> # rest
      else info # update_sentTime pn now rest)"

text \<open>
  One round of the second loop: the accelerator's bytes when it is enabled, connected and
  answers with success and data, the stored bytes otherwise; nothing counts the re-sends.
\<close>

definition retransmit_one :: "FPGAInterface \<Rightarrow> time_point \<Rightarrow> PacketInfo \<Rightarrow> QUICHandler \<Rightarrow> QUICHandler" where
  "retransmit_one fpga now packetInfo s =
     (let result = executePacketOperation fpga PACKET_RETRANSMISSION []
                     (m_connectionID s) (packetNumber packetInfo);
          pkt = (if m_accelerationEnabled s \<and> isConnected fpga \<and> success result
                    \<and> data result \<noteq> []
                 then data result else packetData packetInfo)
      in s\<lparr>sent_datagrams := sent_datagrams s @ [pkt],
           m_bytesSent := m_bytesSent s + of_nat (length pkt),
           m_packetsSent := m_packetsSent s + 1,
           m_sentPackets := update_sentTime (packetNumber packetInfo) now (m_sentPackets s)\<rparr>)"

definition checkForRetransmissions :: "FPGAInterface \<Rightarrow> time_point \<Rightarrow> QUICHandler \<Rightarrow> QUICHandler" where
  "checkForRetransmissions fpga now s =
     fold (retransmit_one fpga now) (packetsToRetransmit now s) s"

section \<open>quic\_handler: incoming datagrams\<close>

definition crypto_response_initial :: bytes where
  "crypto_response_initial =
     [0x06, 0x00, 0x10,
      0x01, 0x02, 0x03, 0x04, 0x05, 0x06, 0x07, 0x08,
      0x09, 0x0A, 0x0B, 0x0C, 0x0D, 0x0E, 0x0F, 0x10]"

definition crypto_response_handshake :: bytes where
  "crypto_response_handshake =
     [0x06, 0x00, 0x10,
      0x11, 0x12, 0x13, 0x14, 0x15, 0x16, 0x17, 0x18,
      0x19, 0x1A, 0x1B, 0x1C, 0x1D, 0x1E, 0x1F, 0x20]"

definition track_received :: "QUICPacketHeader \<Rightarrow> QUICHandler \<Rightarrow> QUICHandler" where
  "track_received header s = s\<lparr>m_receivedPackets := m_receivedPackets s @ [h_packetNumber header]\<rparr>"

definition handleInitialPacket ::
  "FPGAInterface \<Rightarrow> time_point \<Rightarrow> QUICPacketHeader \<Rightarrow> bytes \<Rightarrow> QUICHandler
     \<Rightarrow> (bool \<times> QUICHandler) option" where
  "handleInitialPacket fpga now header payload s0 =
     (let s = track_received header s0;
          responsePayload = crypto_response_initial;
          result = executePacketOperation fpga PACKET_FRAMING responsePayload
                     (m_connectionID s) (m_nextPacketNumber s) in
      if m_accelerationEnabled s \<and> isConnected fpga \<and> success result then
        Some (True, send_and_track now (data result) s)
      else sendPacket fpga now INITIAL responsePayload s)"

definition handleHandshakePacket ::
  "FPGAInterface \<Rightarrow> time_point \<Rightarrow> QUICPacketHeader \<Rightarrow> bytes \<Rightarrow> QUICHandler
     \<Rightarrow> (bool \<times> QUICHandler) option" where
  "handleHandshakePacket fpga now header payload s0 =
     do {
       (handshakeResult, s1) \<leftarrow>
          sendPacket fpga now HANDSHAKE crypto_response_handshake (track_received header s0);
       (oneRttResult, s2) \<leftarrow> sendPacket fpga now ONE_RTT [0x1E] s1;
       Some (handshakeResult \<and> oneRttResult, s2)
     }"

definition handleOneRttPacket ::
  "FPGAInterface \<Rightarrow> time_point \<Rightarrow> QUICPacketHeader \<Rightarrow> bytes \<Rightarrow> QUICHandler
     \<Rightarrow> (bool \<times> QUICHandler) option" where
  "handleOneRttPacket fpga now header payload s0 =
     do {
       (ok, s1) \<leftarrow> processFrames fpga now payload (track_received header s0);
       if \<not> ok then Some (False, s1)
       else sendAckPacket fpga now (m_receivedPackets s1) s1
     }"

text \<open>The bookkeeping at the head of \<open>processIncomingPacket\<close>: activity, byte and packet counters.\<close>

definition note_arrival :: "time_point \<Rightarrow> nat \<Rightarrow> QUICHandler \<Rightarrow> QUICHandler" where
  "note_arrival now len s0 =
     (let s1 = updateActivity now s0
      in s1\<lparr>m_bytesReceived := m_bytesReceived s1 + of_nat len,
            m_packetsReceived := m_packetsReceived s1 + 1\<rparr>)"

text \<open>The first parsed packet's destination connection ID becomes the connection's.\<close>

definition store_dest_cid :: "QUICPacketHeader \<Rightarrow> QUICHandler \<Rightarrow> QUICHandler" where
  "store_dest_cid header s =
     (if m_destConnID s = [] then s\<lparr>m_destConnID := h_destConnID header\<rparr> else s)"

text \<open>The \<open>switch\<close> over the packet type.\<close>

definition dispatch ::
  "FPGAInterface \<Rightarrow> time_point \<Rightarrow> QUICPacketHeader \<Rightarrow> bytes \<Rightarrow> QUICHandler
     \<Rightarrow> (bool \<times> QUICHandler) option" where
  "dispatch fpga now header payload s =
     (case h_type header of
        INITIAL \<Rightarrow> handleInitialPacket fpga now header payload s
      | HANDSHAKE \<Rightarrow> handleHandshakePacket fpga now header payload s
      | ONE_RTT \<Rightarrow> handleOneRttPacket fpga now header payload s
      | ZERO_RTT \<Rightarrow> Some (False, s)
      | RETRY \<Rightarrow> Some (False, s)
      | VERSION_NEGOTIATION \<Rightarrow> Some (False, s))"

text \<open>
  \<open>processIncomingPacket(data, length)\<close>. \<open>data\<close> is \<open>None\<close> for a null pointer and
  otherwise the buffer it points to, of which the first \<open>len\<close> bytes are the datagram.
  Every clock reading inside one call is \<open>now\<close>.
\<close>

definition processIncomingPacket ::
  "FPGAInterface \<Rightarrow> time_point \<Rightarrow> bytes option \<Rightarrow> nat \<Rightarrow> QUICHandler
     \<Rightarrow> (bool \<times> QUICHandler) option" where
  "processIncomingPacket fpga now data_ptr len s0 =
     (case data_ptr of
        None \<Rightarrow> Some (False, s0)
      | Some buf \<Rightarrow>
          if len = 0 then Some (False, s0)
          else
            (case parsePacket (take len buf) of
               None \<Rightarrow> Some (False, note_arrival now len s0)
             | Some (header, payload) \<Rightarrow>
                 do {
                   (result, s4) \<leftarrow> dispatch fpga now header payload
                                      (store_dest_cid header (note_arrival now len s0));
                   Some (result, checkForRetransmissions fpga now s4)
                 }))"

text \<open>
  The life of one connection: the datagrams it receives, each with the accelerator's
  behaviour and the clock reading at that moment.
\<close>

type_synonym arrival = "FPGAInterface \<times> time_point \<times> bytes option \<times> nat"

fun run :: "arrival list \<Rightarrow> QUICHandler \<Rightarrow> QUICHandler option" where
  "run [] s = Some s"
| "run ((fpga, now, data_ptr, len) # rest) s =
     (case processIncomingPacket fpga now data_ptr len s of
        None \<Rightarrow> None
      | Some (result, s') \<Rightarrow> run rest s')"

section \<open>quic\_proxy: the connection table\<close>

record QUICProxy =
  m_connections :: "QUICHandler list"
  lastCleanupTime :: time_point
  m_activeConnections :: nat

text \<open>
  \<open>cleanupInactiveConnections\<close>. \<open>currentTime\<close> is the clock reading at entry; each
  call of \<open>isActive\<close> reads the clock again, and \<open>clock i\<close> is the reading for the
  handler at position \<open>i\<close>. \<open>std::remove_if\<close> followed by \<open>erase\<close> keeps the
  handlers that stay, in their order.
\<close>

definition cleanupInactiveConnections :: "time_point \<Rightarrow> (nat \<Rightarrow> time_point) \<Rightarrow> QUICProxy \<Rightarrow> QUICProxy" where
  "cleanupInactiveConnections currentTime clock p =
     (if elapsed_s currentTime (lastCleanupTime p) < 5 then p
      else let kept = map snd (filter (\<lambda>(i, handler). isActive (clock i) handler)
                                  (enumerate 0 (m_connections p)))
        in if length kept \<noteq> length (m_connections p)
           then p\<lparr>lastCleanupTime := currentTime, m_connections := kept,
                  m_activeConnections := length kept\<rparr>
           else p\<lparr>lastCleanupTime := currentTime\<rparr>)"

section \<open>quic\_packet\_processor: signals\<close>

text \<open>
  The accelerator's packet processor has two processes. The first runs its reset branch
  while \<open>rst\<close> is \<open>'1'\<close>; otherwise, on a rising clock edge, it runs the millisecond
  timer, the assignment \<open>state <= next_state\<close> and the branch of \<open>case state\<close>. The second
  (``next state logic'') assigns \<open>next_state\<close> from \<open>state\<close>, \<open>start\<close>, \<open>operation\<close> and
  \<open>header_valid\<close>.

  A signal assignment \<open><=\<close> takes effect when the process suspends. So every read of a
  signal in a branch gives the value the signal had before the edge, and of several
  assignments to one signal, or to one element or slice of it, the last one holds.
  A branch is therefore a function of the port values \<open>i\<close>, of the signals \<open>p\<close> before the
  edge, and of the signals \<open>q\<close> as assigned so far: it reads \<open>p\<close> and updates \<open>q\<close>. A
  variable (\<open>:=\<close>) is a \<open>let\<close>.

  The contents of \<open>output_buffer\<close> and \<open>header_buf\<close>, the signal \<open>packet_type\<close> (with the
  port \<open>mode\<close>) that only selects these contents, and the output ports \<open>done\<close>,
  \<open>data_out\<close>, \<open>data_out_valid\<close>, \<open>data_out_last\<close> and \<open>packets_*\<close> are left out: no other
  signal is assigned from them. The range constraints of the integer signals and
  variables (\<open>header_size\<close>, \<open>data_length\<close>) are not checked: the value is carried as computed.
\<close>

datatype state_type =
    IDLE
  | LOAD_DATA
  | VALIDATE_HEADER
  | CREATE_HEADER
  | PROCESS_PAYLOAD
  | PROCESS_STREAM_FRAME
  | FRAME_DATA
  | PROCESS_ACK
  | CHECK_RETRANSMIT
  | RETRANSMIT_PACKET
  | OUTPUT_DATA
  | COMPLETE

datatype validation_code =
    VALID_HEADER
  | INVALID_PACKET_TYPE
  | INVALID_VERSION
  | INVALID_CID_LENGTH
  | INVALID_PACKET_SIZE
  | INVALID_FRAME_TYPE
  | INVALID_PKT_NUM_LEN
  | INVALID_CID_MATCH
  | INVALID_TOKEN

definition PKT_TYPE_INITIAL :: byte where "PKT_TYPE_INITIAL = 0xFF"
definition PKT_TYPE_0RTT :: byte where "PKT_TYPE_0RTT = 0xFE"
definition PKT_TYPE_HANDSHAKE :: byte where "PKT_TYPE_HANDSHAKE = 0xFD"
definition PKT_TYPE_RETRY :: byte where "PKT_TYPE_RETRY = 0xFC"
definition PKT_TYPE_VERSION_NEG :: byte where "PKT_TYPE_VERSION_NEG = 0xFB"

definition BUFFER_SIZE :: int where "BUFFER_SIZE = 2048"
definition MAX_TRACKED_PACKETS :: nat where "MAX_TRACKED_PACKETS = 128"
definition MAX_STREAMS :: nat where "MAX_STREAMS = 64"

text \<open>The input ports.\<close>

record ports =
  start :: bool
  operation :: "2 word"
  connection_id :: "64 word"
  packet_number :: "32 word"
  data_in :: "64 word"
  data_in_valid :: bool
  data_in_last :: bool
  data_out_ready :: bool
  ack_packet_num :: "32 word"
  ack_receive :: bool
  retx_timeout :: "16 word"

record packet_record =
  packet_num :: "32 word"
  pkt_size :: int
  timestamp :: "32 word"
  acked :: bool
  retx_count :: nat

datatype stream_state_type = STREAM_IDLE | STREAM_OPEN | STREAM_CLOSED | STREAM_RESET

record stream_record =
  stream_id :: "32 word"
  stream_state :: stream_state_type
  recv_offset :: "64 word"
  send_offset :: "64 word"
  is_bidi :: bool
  last_activity :: "32 word"
  fin_received :: bool
  fin_sent :: bool

text \<open>
  The signals. The buffer pointers and sizes are VHDL integers. The input buffer, an
  array indexed from 0 to \<open>BUFFER_SIZE - 1\<close>, is a function of the index. The reset
  branch does not assign \<open>packet_tracker\<close>, so a slot holds its elaboration default until
  \<open>FRAME_DATA\<close> stores into it: every \<open>std_logic\<close> member is \<open>'U'\<close>, which equals
  neither \<open>'0'\<close> nor any packet number. Such a slot is \<open>None\<close>.
\<close>

record processor =
  state :: state_type
  next_state :: state_type
  data_in_ready :: bool
  input_buffer :: "int \<Rightarrow> byte"
  in_buf_wrptr :: int
  in_buf_rdptr :: int
  out_buf_wrptr :: int
  out_buf_rdptr :: int
  packet_tracker :: "packet_record option list"
  packet_index :: nat
  current_time :: "32 word"
  timer_1ms :: "16 word"
  packet_count_sent :: "32 word"
  packet_count_received :: "32 word"
  packet_count_retx :: "32 word"
  retx_needed :: bool
  retx_packet_num :: "32 word"
  ack_send :: bool
  header_valid :: bool
  validation_error :: validation_code
  header_size :: int
  final_packet_num :: "32 word"
  streams :: "stream_record list"
  stream_count :: nat
  current_stream_id :: "32 word"

definition stream_reset_value :: stream_record where
  "stream_reset_value =
     \<lparr>stream_id = 0, stream_state = STREAM_IDLE, recv_offset = 0, send_offset = 0,
      is_bidi = False, last_activity = 0, fin_received = False, fin_sent = False\<rparr>"

text \<open>The branch \<open>rst = '1'\<close> of the first process. It does not assign \<open>next_state\<close>.\<close>

definition processor_reset :: "processor \<Rightarrow> processor" where
  "processor_reset p =
     p\<lparr>state := IDLE, data_in_ready := False,
       in_buf_wrptr := 0, in_buf_rdptr := 0, out_buf_wrptr := 0, out_buf_rdptr := 0,
       packet_index := 0,
       packet_count_sent := 0, packet_count_received := 0, packet_count_retx := 0,
       current_time := 0, timer_1ms := 0,
       retx_needed := False, ack_send := False,
       header_valid := False, validation_error := VALID_HEADER,
       stream_count := 0, current_stream_id := 0,
       streams := replicate MAX_STREAMS stream_reset_value\<rparr>"

text \<open>
  The signals after elaboration and a reset: \<open>state\<close> and \<open>next_state\<close> start at the
  leftmost value \<open>IDLE\<close> of their type, the integers at 0. A byte of the input buffer
  that was never written is taken as 0.
\<close>

definition processor_init :: processor where
  "processor_init =
     processor_reset
       \<lparr>state = IDLE, next_state = IDLE, data_in_ready = False,
        input_buffer = (\<lambda>k. 0),
        in_buf_wrptr = 0, in_buf_rdptr = 0, out_buf_wrptr = 0, out_buf_rdptr = 0,
        packet_tracker = replicate MAX_TRACKED_PACKETS None,
        packet_index = 0, current_time = 0, timer_1ms = 0,
        packet_count_sent = 0, packet_count_received = 0, packet_count_retx = 0,
        retx_needed = False, retx_packet_num = 0, ack_send = False,
        header_valid = False, validation_error = VALID_HEADER,
        header_size = 0, final_packet_num = 0,
        streams = replicate MAX_STREAMS stream_reset_value,
        stream_count = 0, current_stream_id = 0\<rparr>"

section \<open>quic\_packet\_processor: the clocked process\<close>

text \<open>The millisecond timer that runs on every rising edge.\<close>

definition timer :: "processor \<Rightarrow> processor \<Rightarrow> processor" where
  "timer p q =
     (if timer_1ms p = 50000 then q\<lparr>timer_1ms := 0, current_time := current_time p + 1\<rparr>
      else q\<lparr>timer_1ms := timer_1ms p + 1\<rparr>)"

text \<open>The value that the \<open>case operation\<close> of \<open>IDLE\<close> and of the second process selects.\<close>

definition operation_state :: "2 word \<Rightarrow> state_type" where
  "operation_state op =
     (if op = 0 then LOAD_DATA else if op = 1 then PROCESS_ACK
      else if op = 2 then CHECK_RETRANSMIT else IDLE)"

text \<open>The branch \<open>IDLE\<close>.\<close>

definition idle :: "ports \<Rightarrow> processor \<Rightarrow> processor \<Rightarrow> processor" where
  "idle i p q =
     (let q1 = q\<lparr>retx_needed := False, ack_send := False\<rparr> in
      if start i then q1\<lparr>data_in_ready := True, next_state := operation_state (operation i)\<rparr>
      else q1)"

text \<open>
  The branch \<open>LOAD_DATA\<close>. Each of the eight turns of its loop assigns the element
  \<open>input_buffer(in_buf_wrptr)\<close> and the pointer \<open>in_buf_wrptr + 1\<close>, with \<open>in_buf_wrptr\<close> as
  it was before the edge.
\<close>

definition word_byte :: "64 word \<Rightarrow> nat \<Rightarrow> byte" where
  "word_byte w k = ucast (drop_bit (k * 8) w)"

definition load_data :: "ports \<Rightarrow> processor \<Rightarrow> processor \<Rightarrow> processor" where
  "load_data i p q =
     (if data_in_valid i \<and> data_in_ready p then
        let q1 = fold (\<lambda>k q. q\<lparr>input_buffer :=
                                  (input_buffer q)(in_buf_wrptr p := word_byte (data_in i) k),
                                in_buf_wrptr := (in_buf_wrptr p + 1) mod BUFFER_SIZE\<rparr>)
                   [0..<8] q
        in if data_in_last i then q1\<lparr>data_in_ready := False, next_state := VALIDATE_HEADER\<rparr>
           else q1
      else q)"

text \<open>One pair of assignments \<open>header_valid <= '0'; validation_error <= e\<close>, and the pair guarded.\<close>

definition set_invalid :: "validation_code \<Rightarrow> processor \<Rightarrow> processor" where
  "set_invalid e q = q\<lparr>header_valid := False, validation_error := e\<rparr>"

definition invalid_if :: "bool \<Rightarrow> validation_code \<Rightarrow> processor \<Rightarrow> processor" where
  "invalid_if c e q = (if c then set_invalid e q else q)"

text \<open>The loop comparing eight buffer bytes from \<open>base\<close> on with \<open>connection_id\<close>.\<close>

definition cid_match :: "(int \<Rightarrow> byte) \<Rightarrow> int \<Rightarrow> 64 word \<Rightarrow> bool" where
  "cid_match buf base cid = list_all (\<lambda>k. buf (base + int k) = word_byte cid k) [0..<8]"

text \<open>
  The long-header checks of \<open>VALIDATE_HEADER\<close> in the order of the source, each under the
  conjunction of the \<open>if\<close> conditions around it. A later check overwrites the error code
  of an earlier one. The connection ID comparison is guarded by \<open>header_valid = '1'\<close>,
  which reads the signal as it was before the edge.
\<close>

definition validate_long :: "ports \<Rightarrow> processor \<Rightarrow> processor \<Rightarrow> processor" where
  "validate_long i p q =
     (let buf = input_buffer p; w = in_buf_wrptr p;
          dcid_len = uint (buf 5);
          scid_len_index = 6 + dcid_len;
          scid_len = uint (buf scid_len_index);
          token_len_index = scid_len_index + 1 + scid_len;
          q1 = invalid_if (\<not> (buf 0 = PKT_TYPE_INITIAL \<or> buf 0 = PKT_TYPE_0RTT
                        \<or> buf 0 = PKT_TYPE_HANDSHAKE \<or> buf 0 = PKT_TYPE_RETRY
                        \<or> buf 0 = PKT_TYPE_VERSION_NEG)) INVALID_PACKET_TYPE q;
          q2 = invalid_if (w < 7) INVALID_PACKET_SIZE q1;
          q3 = invalid_if (w \<ge> 5 \<and> \<not> (buf 1 = 0x00 \<and> buf 2 = 0x00 \<and> buf 3 = 0x00
                                       \<and> buf 4 = 0x01)) INVALID_VERSION q2;
          q4 = invalid_if (w \<ge> 6 \<and> dcid_len > 20) INVALID_CID_LENGTH q3;
          q5 = invalid_if (w \<ge> 6 \<and> w \<ge> 6 + dcid_len \<and> scid_len > 20) INVALID_CID_LENGTH q4;
          q6 = invalid_if (w \<ge> 6 \<and> w \<ge> 6 + dcid_len \<and> buf 0 = PKT_TYPE_INITIAL
                             \<and> w < token_len_index) INVALID_TOKEN q5
      in invalid_if (w \<ge> 6 \<and> header_valid p \<and> dcid_len = 8
                       \<and> \<not> cid_match buf 6 (connection_id i)) INVALID_CID_MATCH q6)"

definition validate_short :: "ports \<Rightarrow> processor \<Rightarrow> processor \<Rightarrow> processor" where
  "validate_short i p q =
     (let buf = input_buffer p; w = in_buf_wrptr p;
          pkt_num_len = uint (drop_bit 5 (buf 0) AND 0x03) + 1;
          q1 = invalid_if (w < 10) INVALID_PACKET_SIZE q;
          q2 = invalid_if (buf 0 AND 0x1F \<noteq> 0) INVALID_PACKET_TYPE q1;
          q3 = invalid_if (w < 1 + 8 + pkt_num_len) INVALID_PKT_NUM_LEN q2
      in invalid_if (header_valid p \<and> \<not> cid_match buf 1 (connection_id i)) INVALID_CID_MATCH q3)"

text \<open>The branch \<open>VALIDATE_HEADER\<close>.\<close>

definition validate_header :: "ports \<Rightarrow> processor \<Rightarrow> processor \<Rightarrow> processor" where
  "validate_header i p q =
     (let q0 = q\<lparr>header_valid := True, validation_error := VALID_HEADER\<rparr> in
      if in_buf_wrptr p > 0 then
        (if bit (input_buffer p 0) 7 then validate_long i p q0 else validate_short i p q0)
      else set_invalid INVALID_PACKET_SIZE q0)"

text \<open>
  The branch \<open>CREATE_HEADER\<close>. For either header form the last assignment to
  \<open>header_size\<close> is \<open>header_size <= header_size + 4\<close>.
\<close>

definition create_header :: "ports \<Rightarrow> processor \<Rightarrow> processor \<Rightarrow> processor" where
  "create_header i p q =
     q\<lparr>header_size := header_size p + 4, final_packet_num := packet_number i,
       next_state := FRAME_DATA\<rparr>"

section \<open>quic\_packet\_processor: framing and the stream table\<close>

text \<open>
  \<open>FRAME_DATA\<close>: the header bytes go to the output buffer. Every assignment to
  \<open>out_buf_wrptr\<close> in this branch is \<open>out_buf_wrptr <= (out_buf_wrptr + 1) mod BUFFER_SIZE\<close>.
\<close>

definition advance_out :: "processor \<Rightarrow> processor \<Rightarrow> processor" where
  "advance_out p q = q\<lparr>out_buf_wrptr := (out_buf_wrptr p + 1) mod BUFFER_SIZE\<rparr>"

definition copy_header :: "processor \<Rightarrow> processor \<Rightarrow> processor" where
  "copy_header p q = fold (\<lambda>k. advance_out p) [0..<nat (header_size p)] q"

definition open_send_stream :: "32 word \<Rightarrow> 32 word \<Rightarrow> stream_record \<Rightarrow> stream_record" where
  "open_send_stream sid now r =
     r\<lparr>stream_id := sid, stream_state := STREAM_OPEN, is_bidi := True, last_activity := now\<rparr>"

text \<open>\<open>FRAME_DATA\<close>: the choice of the stream that carries the payload.\<close>

definition select_send_stream :: "processor \<Rightarrow> processor \<Rightarrow> processor" where
  "select_send_stream p q =
     (if stream_count p = 0 then
        q\<lparr>current_stream_id := 0,
          streams := (streams q)[0 := open_send_stream 0 (current_time p) (streams q ! 0)],
          stream_count := 1\<rparr>
      else if stream_count p < MAX_STREAMS then
        q\<lparr>current_stream_id := of_nat (stream_count p),
          streams := (streams q)[stream_count p :=
             open_send_stream (of_nat (stream_count p)) (current_time p)
               (streams q ! stream_count p)],
          stream_count := stream_count p + 1\<rparr>
      else
        (case find (\<lambda>k. stream_state (streams p ! k) = STREAM_OPEN) [0..<MAX_STREAMS] of
           None \<Rightarrow> q\<lparr>current_stream_id := stream_id (streams p ! 0)\<rparr>
         | Some k \<Rightarrow>
             q\<lparr>current_stream_id := stream_id (streams p ! k),
               streams := (streams q)[k := (streams q ! k)\<lparr>last_activity := current_time p\<rparr>]\<rparr>))"

text \<open>
  \<open>FRAME_DATA\<close>: the STREAM frame header. The stream is looked up under
  \<open>current_stream_id\<close> as it was before the edge.
\<close>

definition stream_frame :: "processor \<Rightarrow> processor \<Rightarrow> processor" where
  "stream_frame p q =
     (let q1 = advance_out p q;
          q2 = (case find (\<lambda>k. stream_id (streams p ! k) = current_stream_id p) [0..<MAX_STREAMS] of
                  None \<Rightarrow> q1
                | Some k \<Rightarrow>
                    q1\<lparr>streams := (streams q1)[k := (streams q1 ! k)
                         \<lparr>send_offset := send_offset (streams p ! k)
                                          + of_int (in_buf_wrptr p - in_buf_rdptr p),
                          last_activity := current_time p\<rparr>]\<rparr>)
      in advance_out p q2)"

text \<open>
  \<open>FRAME_DATA\<close>: the loop \<open>while in_buf_rdptr /= in_buf_wrptr\<close> that copies the payload.
  Its body assigns \<open>in_buf_rdptr\<close>, and its condition reads the signal as it was before
  the edge: once entered the loop does not end, and the process never suspends.
\<close>

partial_function (option) copy_payload :: "processor \<Rightarrow> processor \<Rightarrow> processor option" where
  "copy_payload p q =
     (if in_buf_rdptr p \<noteq> in_buf_wrptr p then
        copy_payload p
          ((advance_out p q)\<lparr>in_buf_rdptr := (in_buf_rdptr p + 1) mod BUFFER_SIZE\<rparr>)
      else Some q)"

declare copy_payload.simps [code]

text \<open>\<open>FRAME_DATA\<close>, the body: a STREAM frame when input is pending, a PING otherwise.\<close>

definition frame_payload :: "processor \<Rightarrow> processor \<Rightarrow> processor option" where
  "frame_payload p q =
     (if in_buf_wrptr p > in_buf_rdptr p then
        copy_payload p (stream_frame p (select_send_stream p q))
      else Some (advance_out p q))"

text \<open>\<open>FRAME_DATA\<close>, the end: the packet goes into the tracker slot at \<open>packet_index\<close>.\<close>

definition track_packet :: "processor \<Rightarrow> processor \<Rightarrow> processor" where
  "track_packet p q =
     (if packet_index p < MAX_TRACKED_PACKETS then
        q\<lparr>packet_tracker := (packet_tracker q)[packet_index p :=
              Some \<lparr>packet_num = final_packet_num p, pkt_size = out_buf_wrptr p,
                    timestamp = current_time p, acked = False, retx_count = 0\<rparr>],
          packet_index := (packet_index p + 1) mod MAX_TRACKED_PACKETS\<rparr>
      else q)"

text \<open>The branch \<open>FRAME_DATA\<close>. \<open>None\<close>: the process does not suspend.\<close>

definition frame_data :: "processor \<Rightarrow> processor \<Rightarrow> processor option" where
  "frame_data p q =
     (case frame_payload p (copy_header p q) of
        None \<Rightarrow> None
      | Some q1 \<Rightarrow>
          Some ((track_packet p q1)\<lparr>packet_count_sent := packet_count_sent p + 1,
                                    next_state := OUTPUT_DATA\<rparr>))"

text \<open>
  The branch \<open>PROCESS_PAYLOAD\<close>: the type byte of the frame at the read pointer is
  checked; a frame that is neither STREAM nor ACK is skipped by one byte.
\<close>

definition process_payload :: "processor \<Rightarrow> processor \<Rightarrow> processor" where
  "process_payload p q =
     (let q0 = q\<lparr>header_valid := True, validation_error := VALID_HEADER\<rparr>;
          t = input_buffer p (in_buf_rdptr p)
      in if in_buf_rdptr p < in_buf_wrptr p then
           (if t = 0x00 \<or> t = 0x01 \<or> t = 0x02 \<or> t = 0x03 \<or> t = 0x04 \<or> t = 0x06
                \<or> (0x08 \<le> t \<and> t \<le> 0x0F) then
              (if 0x08 \<le> t \<and> t \<le> 0x0F then q0\<lparr>next_state := PROCESS_STREAM_FRAME\<rparr>
               else if t = 0x02 \<or> t = 0x03 then q0\<lparr>next_state := PROCESS_ACK\<rparr>
               else q0\<lparr>in_buf_rdptr := (in_buf_rdptr p + 1) mod BUFFER_SIZE,
                       next_state := COMPLETE\<rparr>)
            else (set_invalid INVALID_FRAME_TYPE q0)\<lparr>next_state := COMPLETE\<rparr>)
         else q0\<lparr>next_state := COMPLETE\<rparr>)"

text \<open>An assignment to the byte \<open>k\<close> of a vector, as in \<open>v(k*8+7 downto k*8) <= b\<close>.\<close>

definition set_byte :: "nat \<Rightarrow> byte \<Rightarrow> 'a::len word \<Rightarrow> 'a word" where
  "set_byte k b v = (v AND NOT (push_bit (k * 8) 0xFF)) OR push_bit (k * 8) (ucast b)"

text \<open>What \<open>PROCESS_STREAM_FRAME\<close> assigns to the record of a stream it has found.\<close>

definition receive_on :: "64 word \<Rightarrow> bool \<Rightarrow> 32 word \<Rightarrow> stream_record \<Rightarrow> stream_record
    \<Rightarrow> stream_record" where
  "receive_on new_end has_fin_flag now old r =
     (let r1 = (if new_end > recv_offset old then r\<lparr>recv_offset := new_end\<rparr> else r);
          r2 = r1\<lparr>last_activity := now\<rparr>
      in if has_fin_flag then
           (let r3 = r2\<lparr>fin_received := True\<rparr>
            in if stream_state old = STREAM_OPEN then r3\<lparr>stream_state := STREAM_CLOSED\<rparr> else r3)
         else r2)"

text \<open>
  The branch \<open>PROCESS_STREAM_FRAME\<close>. The reads of the frame's bytes all index the
  buffer with \<open>in_buf_rdptr\<close> as it was before the edge, so each of them gives the type
  byte; the table is searched, and a new record is named, with \<open>current_stream_id\<close> as it
  was before the edge; and of the assignments to \<open>in_buf_rdptr\<close> the last one holds.
\<close>

definition process_stream_frame :: "processor \<Rightarrow> processor \<Rightarrow> processor" where
  "process_stream_frame p q =
     (let q4 =
        (if in_buf_rdptr p < in_buf_wrptr p \<and> in_buf_wrptr p - in_buf_rdptr p \<ge> 6 then
           let frame_type_byte = input_buffer p (in_buf_rdptr p);
               q1 = q\<lparr>current_stream_id :=
                        fold (\<lambda>k. set_byte k (input_buffer p (in_buf_rdptr p))) [0..<4]
                          (current_stream_id q)\<rparr>;
               has_fin_flag = bit frame_type_byte 0;
               stream_offset =
                 (if bit frame_type_byte 2
                  then fold (\<lambda>j. set_byte j (input_buffer p (in_buf_rdptr p))) [0..<8] 0
                  else (0 :: 64 word));
               data_length =
                 (if bit frame_type_byte 1
                  then uint (input_buffer p (in_buf_rdptr p))
                       + 256 * uint (input_buffer p ((in_buf_rdptr p + 1) mod BUFFER_SIZE))
                  else in_buf_wrptr p - in_buf_rdptr p);
               new_end = stream_offset + of_int data_length;
               found_stream =
                 find (\<lambda>j. stream_id (streams p ! j) = current_stream_id p) [0..<stream_count p];
               q2 = (case found_stream of
                       None \<Rightarrow> q1
                     | Some j \<Rightarrow>
                         q1\<lparr>streams := (streams q1)[j :=
                              receive_on new_end has_fin_flag (current_time p) (streams p ! j)
                                (streams q1 ! j)]\<rparr>);
               q3 = (if found_stream = None \<and> stream_count p < MAX_STREAMS then
                       q2\<lparr>streams := (streams q2)[stream_count p :=
                            \<lparr>stream_id = current_stream_id p,
                             stream_state = (if has_fin_flag then STREAM_CLOSED else STREAM_OPEN),
                             recv_offset = new_end, send_offset = 0, is_bidi = True,
                             last_activity = current_time p, fin_received = has_fin_flag,
                             fin_sent = False\<rparr>],
                          stream_count := stream_count p + 1\<rparr>
                     else q2)
           in q3\<lparr>in_buf_rdptr := (in_buf_rdptr p + data_length) mod BUFFER_SIZE\<rparr>
         else q)
      in q4\<lparr>next_state := COMPLETE\<rparr>)"

section \<open>quic\_packet\_processor: the packet tracker\<close>

text \<open>The branch \<open>PROCESS_ACK\<close>.\<close>

definition process_ack :: "ports \<Rightarrow> processor \<Rightarrow> processor \<Rightarrow> processor" where
  "process_ack i p q =
     (let q1 =
        (if ack_receive i then
           (case find (\<lambda>k. case packet_tracker p ! k of
                              None \<Rightarrow> False
                            | Some r \<Rightarrow> packet_num r = ack_packet_num i)
                   [0..<MAX_TRACKED_PACKETS] of
              None \<Rightarrow> q
            | Some k \<Rightarrow>
                q\<lparr>packet_tracker := (packet_tracker q)[k :=
                     map_option (\<lambda>r. r\<lparr>acked := True\<rparr>) (packet_tracker q ! k)]\<rparr>)
           \<lparr>packet_count_received := packet_count_received p + 1\<rparr>
         else q)
      in q1\<lparr>ack_send := True, next_state := COMPLETE\<rparr>)"

text \<open>The condition under which \<open>CHECK_RETRANSMIT\<close> picks a tracker slot.\<close>

definition needs_retx :: "32 word \<Rightarrow> 16 word \<Rightarrow> packet_record option \<Rightarrow> bool" where
  "needs_retx now timeout slot =
     (case slot of
        None \<Rightarrow> False
      | Some r \<Rightarrow> \<not> acked r \<and> retx_count r < 10 \<and> now - timestamp r > ucast timeout)"

text \<open>
  The branch \<open>CHECK_RETRANSMIT\<close>: the first slot that needs it, then \<open>exit\<close>. The final
  \<open>if retx_needed = '0'\<close> reads the signal as it was before the edge.
\<close>

definition check_retransmit :: "ports \<Rightarrow> processor \<Rightarrow> processor \<Rightarrow> processor" where
  "check_retransmit i p q =
     (let q0 = q\<lparr>retx_needed := False\<rparr>;
          q1 = (case find (\<lambda>k. needs_retx (current_time p) (retx_timeout i) (packet_tracker p ! k))
                       [0..<MAX_TRACKED_PACKETS] of
                  None \<Rightarrow> q0
                | Some k \<Rightarrow>
                    q0\<lparr>retx_needed := True,
                       retx_packet_num := packet_num (the (packet_tracker p ! k)),
                       packet_tracker := (packet_tracker q0)[k :=
                         map_option (\<lambda>r. r\<lparr>timestamp := current_time p,
                                              retx_count := retx_count (the (packet_tracker p ! k)) + 1\<rparr>)
                           (packet_tracker q0 ! k)],
                       packet_count_retx := packet_count_retx p + 1,
                       next_state := RETRANSMIT_PACKET\<rparr>)
      in if \<not> retx_needed p then q1\<lparr>next_state := COMPLETE\<rparr> else q1)"

text \<open>The branch \<open>OUTPUT_DATA\<close>, and the branch \<open>COMPLETE\<close>.\<close>

definition output_data :: "ports \<Rightarrow> processor \<Rightarrow> processor \<Rightarrow> processor" where
  "output_data i p q =
     (if out_buf_rdptr p \<noteq> out_buf_wrptr p \<and> data_out_ready i then
        q\<lparr>out_buf_rdptr := (out_buf_rdptr p + 1) mod BUFFER_SIZE\<rparr>
      else if out_buf_rdptr p = out_buf_wrptr p then q\<lparr>next_state := COMPLETE\<rparr>
      else q)"

definition complete :: "ports \<Rightarrow> processor \<Rightarrow> processor \<Rightarrow> processor" where
  "complete i p q =
     (let q1 = (if \<not> header_valid p then q\<lparr>in_buf_rdptr := 0, in_buf_wrptr := 0\<rparr> else q)
      in if \<not> start i then q1\<lparr>next_state := IDLE\<rparr> else q1)"

text \<open>
  The first process on a rising edge of the clock with \<open>rst = '0'\<close>. \<open>None\<close>: the process
  does not suspend.
\<close>

definition rising_edge :: "ports \<Rightarrow> processor \<Rightarrow> processor option" where
  "rising_edge i p =
     (let q = (timer p p)\<lparr>state := next_state p\<rparr> in
      case state p of
        IDLE \<Rightarrow> Some (idle i p q)
      | LOAD_DATA \<Rightarrow> Some (load_data i p q)
      | VALIDATE_HEADER \<Rightarrow> Some (validate_header i p q)
      | CREATE_HEADER \<Rightarrow> Some (create_header i p q)
      | FRAME_DATA \<Rightarrow> frame_data p q
      | PROCESS_PAYLOAD \<Rightarrow> Some (process_payload p q)
      | PROCESS_STREAM_FRAME \<Rightarrow> Some (process_stream_frame p q)
      | PROCESS_ACK \<Rightarrow> Some (process_ack i p q)
      | CHECK_RETRANSMIT \<Rightarrow> Some (check_retransmit i p q)
      | RETRANSMIT_PACKET \<Rightarrow> Some (q\<lparr>next_state := CREATE_HEADER\<rparr>)
      | OUTPUT_DATA \<Rightarrow> Some (output_data i p q)
      | COMPLETE \<Rightarrow> Some (complete i p q))"

section \<open>quic\_packet\_processor: the next state logic and the histories\<close>

text \<open>The second process.\<close>

definition next_state_logic :: "ports \<Rightarrow> processor \<Rightarrow> processor" where
  "next_state_logic i p =
     (let q = p\<lparr>next_state := state p\<rparr> in
      case state p of
        IDLE \<Rightarrow> if start i then q\<lparr>next_state := operation_state (operation i)\<rparr> else q
      | VALIDATE_HEADER \<Rightarrow>
          if header_valid p then q\<lparr>next_state := CREATE_HEADER\<rparr>
          else q\<lparr>next_state := COMPLETE\<rparr>
      | PROCESS_STREAM_FRAME \<Rightarrow> q\<lparr>next_state := COMPLETE\<rparr>
      | COMPLETE \<Rightarrow> if \<not> start i then q\<lparr>next_state := IDLE\<rparr> else q
      | _ \<Rightarrow> q)"

text \<open>
  Both processes assign \<open>next_state\<close>, a signal of an enumeration type, for which VHDL
  defines no value when two processes drive it. The model gives \<open>next_state\<close> the value
  assigned last, and a history is any sequence of resets, of rising edges and of runs of
  the second process, each with the port values of its moment: whichever of the two
  assignments prevails at a given moment, the run is among the histories. A history
  has no result when one of its rising edges has none.
\<close>

datatype event = RESET | EDGE ports | LOGIC ports

fun occur :: "event \<Rightarrow> processor \<Rightarrow> processor option" where
  "occur RESET p = Some (processor_reset p)"
| "occur (EDGE i) p = rising_edge i p"
| "occur (LOGIC i) p = Some (next_state_logic i p)"

fun history_from :: "event list \<Rightarrow> processor \<Rightarrow> processor option" where
  "history_from [] p = Some p"
| "history_from (e # es) p =
     (case occur e p of None \<Rightarrow> None | Some p' \<Rightarrow> history_from es p')"

definition history :: "event list \<Rightarrow> processor option" where
  "history events = history_from events processor_init"

section \<open>Concrete inputs\<close>

text \<open>An accelerator that is not connected; every request to it fails.\<close>

definition fpga_disconnected :: FPGAInterface where
  "fpga_disconnected =
     \<lparr>isConnected = False,
      executePacketOperation = (\<lambda>operationType inputData connectionID packetNumber.
        \<lparr>success = False, data = [], bytesProcessed = 0, errorMessage = []\<rparr>)\<rparr>"

text \<open>A fresh connection without acceleration.\<close>

definition handler0 :: QUICHandler where
  "handler0 = QUICHandler_new ''10.0.0.7:4433'' False [1, 2, 3, 4, 5, 6, 7, 8] 0"

text \<open>
  An Initial packet of version 1 whose destination connection ID length byte is 21,
  followed by 21 ID bytes, an empty source ID, an empty token, length 0 and packet
  number 7; and the same with 43 ID bytes.
\<close>

definition initial_cid21 :: bytes where
  "initial_cid21 =
     [0xC0, 0x00, 0x00, 0x00, 0x01, 21] @ replicate 21 0xAA
       @ [0x00, 0x00, 0x00, 0x00, 0x00, 0x00, 0x07]"

definition initial_cid43 :: bytes where
  "initial_cid43 =
     [0xC0, 0x00, 0x00, 0x00, 0x01, 43] @ replicate 43 0xAA
       @ [0x00, 0x00, 0x00, 0x00, 0x00, 0x00, 0x07]"

text \<open>
  A short-header datagram with first byte \<open>0x70\<close>, connection ID \<open>01 .. 08\<close>, packet
  number 9 and a PING frame; and the same with first byte \<open>0x40\<close>.
\<close>

definition short_0x70 :: bytes where
  "short_0x70 = [0x70, 1, 2, 3, 4, 5, 6, 7, 8, 0, 0, 0, 9, 0x01]"

definition ping_datagram :: bytes where
  "ping_datagram = [0x40, 1, 2, 3, 4, 5, 6, 7, 8, 0, 0, 0, 9, 0x01]"

definition ping_arrival :: arrival where
  "ping_arrival = (fpga_disconnected, 0, Some ping_datagram, 14)"

text \<open>A connection table with one connection last active at 0 s and one at 20 s.\<close>

definition two_connections :: QUICProxy where
  "two_connections =
     \<lparr>m_connections =
        [handler0, handler0\<lparr>m_clientKey := ''10.0.0.8:4433'', m_lastActivity := 20000000000\<rparr>],
      lastCleanupTime = 0, m_activeConnections = 2\<rparr>"

text \<open>
  A RETRY-type long-header datagram (version 1, empty connection IDs, packet number 1):
  the handler parses it, does not support it, and still runs its retransmission check.
  Eleven of them arrive after a PING, 600 ms apart.
\<close>

definition retry_datagram :: bytes where
  "retry_datagram = [0xF0, 0x00, 0x00, 0x00, 0x01, 0, 0, 0, 0, 0, 0, 1]"

definition late_arrivals :: "arrival list" where
  "late_arrivals =
     map (\<lambda>k. (fpga_disconnected, 600000000 * int k, Some retry_datagram, 12)) [1..<12]"

text \<open>
  Port values of the packet processor: nothing requested; and an ACK for packet 7 to be
  processed. A history in which the second process runs whenever \<open>start\<close> or \<open>state\<close>
  has changed: the request is raised and stays raised over four rising edges.
\<close>

definition quiet_ports :: ports where
  "quiet_ports =
     \<lparr>start = False, operation = 0, connection_id = 0, packet_number = 0, data_in = 0,
      data_in_valid = False, data_in_last = False, data_out_ready = False,
      ack_packet_num = 0, ack_receive = False, retx_timeout = 0\<rparr>"



text \<open>
  Signals of the packet processor at a rising edge: the state register holds
  \<open>PROCESS_STREAM_FRAME\<close>; the stream table holds the 64 open streams 0 to 63;
  \<open>current_stream_id\<close> is 63; the input buffer holds, from the read pointer 0 to the write
  pointer 8, a STREAM frame of type \<open>0x08\<close> whose stream ID bytes \<open>EF BE AD DE\<close> name
  the stream \<open>0xDEADBEEF\<close>; \<open>header_valid\<close> is \<open>'1'\<close>. Every other signal is as after a
  reset.
\<close>

definition full_table :: processor where
  "full_table =
     processor_init
       \<lparr>state := PROCESS_STREAM_FRAME, next_state := COMPLETE, header_valid := True,
        input_buffer := (\<lambda>k. 0)(0 := 0x08, 1 := 0xEF, 2 := 0xBE, 3 := 0xAD, 4 := 0xDE),
        in_buf_wrptr := 8,
        streams := map (\<lambda>k. open_send_stream (of_nat k) 0 stream_reset_value) [0..<64],
        stream_count := 64, current_stream_id := 63\<rparr>"

section \<open>Auxiliary notions for the proofs\<close>

text \<open>The packet numbers in the sent-packet tracker, oldest entry first.\<close>

definition pns :: "QUICHandler \<Rightarrow> 32 word list" where
  "pns s = map packetNumber (m_sentPackets s)"

definition numbered_from :: "32 word \<Rightarrow> nat \<Rightarrow> 32 word list" where
  "numbered_from n k = map (\<lambda>i. n + of_nat i) [0..<k]"

text \<open>
  \<open>s'\<close> extends \<open>s\<close>: its tracker holds the packet numbers of \<open>s\<close> followed by the
  next \<open>k\<close> values of the counter, and its counter has advanced by \<open>k\<close>.
\<close>

definition extends :: "QUICHandler \<Rightarrow> QUICHandler \<Rightarrow> bool" where
  "extends s s' \<longleftrightarrow>
     (\<exists>k. pns s' = pns s @ numbered_from (m_nextPacketNumber s) k
          \<and> m_nextPacketNumber s' = m_nextPacketNumber s + of_nat k)"

text \<open>
  A connection without acceleration, with a stored connection ID short enough for the
  send buffer, and whose tracked packets are all unacknowledged and sent at time 0.
\<close>

definition quiet :: "QUICHandler \<Rightarrow> bool" where
  "quiet s \<longleftrightarrow> \<not> m_accelerationEnabled s \<and> length (m_destConnID s) \<le> 59
     \<and> list_all (\<lambda>p. \<not> acknowledged p \<and> sentTime p = 0) (m_sentPackets s)"

text \<open>What the ACK branch of \<open>processFrames\<close> does to the state, given the frame body.\<close>

definition ack_applied :: "bytes \<Rightarrow> QUICHandler \<Rightarrow> QUICHandler" where
  "ack_applied body s =
     (if 4 \<le> length body
      then s\<lparr>m_sentPackets := mark_acked (be32 body 0) (m_sentPackets s)\<rparr> else s)"

text \<open>
  Connection IDs within the limit that the handler declares: such a connection's response
  headers fit the send buffer. An arrival within the limit is one whose datagram, when
  it parses, carries a destination connection ID of at most that length.
\<close>

definition well_sized :: "QUICHandler \<Rightarrow> bool" where
  "well_sized s \<longleftrightarrow> length (m_destConnID s) \<le> MAX_CONN_ID_LEN \<and> length (m_srcConnID s) \<le> MAX_CONN_ID_LEN"

definition arrival_ok :: "arrival \<Rightarrow> bool" where
  "arrival_ok a =
     (case a of (fpga, now, data_ptr, len) \<Rightarrow>
        (case data_ptr of
           None \<Rightarrow> True
         | Some buf \<Rightarrow>
             (case parsePacket (take len buf) of
                None \<Rightarrow> True
              | Some (header, payload) \<Rightarrow> length (h_destConnID header) \<le> MAX_CONN_ID_LEN)))"

definition returns_sized :: "(bool \<times> QUICHandler) option \<Rightarrow> bool" where
  "returns_sized res = (case res of None \<Rightarrow> False | Some (r, s') \<Rightarrow> well_sized s')"

text \<open>A tracker slot whose retry count is within the limit of \<open>CHECK_RETRANSMIT\<close>.\<close>

definition slot_ok :: "packet_record option \<Rightarrow> bool" where
  "slot_ok slot = (case slot of None \<Rightarrow> True | Some r \<Rightarrow> retx_count r \<le> 10)"

definition tracker_ok :: "processor \<Rightarrow> bool" where
  "tracker_ok p \<longleftrightarrow> list_all slot_ok (packet_tracker p)"

text \<open>
  Neither \<open>state\<close> nor \<open>next_state\<close> holds \<open>PROCESS_PAYLOAD\<close> or \<open>PROCESS_STREAM_FRAME\<close>.
\<close>

definition live :: "processor \<Rightarrow> bool" where
  "live p \<longleftrightarrow> state p \<noteq> PROCESS_PAYLOAD \<and> state p \<noteq> PROCESS_STREAM_FRAME
     \<and> next_state p \<noteq> PROCESS_PAYLOAD \<and> next_state p \<noteq> PROCESS_STREAM_FRAME"

section \<open>Compression round trip\<close>

text \<open>
  C1. The claim is that decompressing the output of the compressor gives the input back.
  The encoder copies a literal byte \<open>0xFF\<close> without escaping it, and the decoder reads
  every \<open>0xFF\<close> followed by two bytes as a repeat record: on the three-byte input
  \<open>FF 01 02\<close> the compressor emits the header and the three literals, and the
  decompressor returns the single byte \<open>02\<close>.
\<close>

theorem compress_roundtrip_fails:
  "data (compress [0xFF, 0x01, 0x02]) = [0x51, 0x43, 0x4D, 0x50, 3, 0, 0, 0, 0xFF, 0x01, 0x02]
   \<and> success (decompress (data (compress [0xFF, 0x01, 0x02])))
   \<and> data (decompress (data (compress [0xFF, 0x01, 0x02]))) = [0x02]
   \<and> data (decompress (data (compress [0xFF, 0x01, 0x02]))) \<noteq> [0xFF, 0x01, 0x02]"
  by (simp add: compress_def decompress_def simulateCompressionOperation_def size_le32_def)

text \<open>
  The round trip does hold for every input that does not contain the marker byte
  \<open>0xFF\<close>.
\<close>

lemma count_run_ge: "count \<le> count_run b xs count"
  by (induction xs arbitrary: count) (auto intro: Suc_leD)

lemma count_run_bound: "count \<le> 255 \<Longrightarrow> count_run b xs count \<le> 255"
  by (induction xs arbitrary: count) auto

lemma count_run_take:
  "take (count_run b xs count - count) xs = replicate (count_run b xs count - count) b"
proof (induction xs arbitrary: count)
  case Nil
  show ?case by simp
next
  case (Cons x xs)
  show ?case
  proof (cases "x = b \<and> count < 255")
    case True
    have "count_run b xs (count + 1) - count = Suc (count_run b xs (count + 1) - (count + 1))"
      using count_run_ge [of "count + 1" b xs] by simp
    with True Cons [of "count + 1"] show ?thesis by simp
  next
    case False
    then show ?thesis by auto
  qed
qed

lemma run_split:
  "b # xs = replicate (count_run b xs 1) b @ drop (count_run b xs 1 - 1) xs"
proof -
  let ?n = "count_run b xs 1 - 1"
  have "count_run b xs 1 = Suc ?n" using count_run_ge [of 1 b xs] by simp
  then have "replicate (count_run b xs 1) b = b # replicate ?n b"
    by (metis replicate_Suc)
  moreover have "xs = replicate ?n b @ drop ?n xs"
    using count_run_take [of b xs 1] by (metis append_take_drop_id)
  ultimately show ?thesis by simp
qed

lemma decode_literal: "m \<noteq> 0xFF \<Longrightarrow> rle_decode (m # rest) = m # rle_decode rest"
  by (cases "(m # rest)" rule: rle_decode.cases) auto

lemma decode_literals: "b \<noteq> 0xFF \<Longrightarrow> rle_decode (replicate n b @ E) = replicate n b @ rle_decode E"
  by (induction n) (simp_all add: decode_literal)

lemma rle_roundtrip_without_marker: "0xFF \<notin> set B \<Longrightarrow> rle_decode (rle_encode B) = B"
proof (induction B rule: rle_encode.induct)
  case 1
  show ?case by simp
next
  case (2 b xs)
  let ?count = "count_run b xs 1"
  let ?rest = "drop (?count - 1) xs"
  have b: "b \<noteq> 0xFF" using "2.prems" by auto
  have "0xFF \<notin> set ?rest" using "2.prems" by (auto dest: in_set_dropD)
  then have IH: "rle_decode (rle_encode ?rest) = ?rest"
    using "2.IH" [of ?count] by simp
  have le: "?count \<le> 255" by (rule count_run_bound) simp
  show ?case
  proof (cases "?count \<ge> 4")
    case True
    have "unat (of_nat ?count :: byte) = ?count"
      using le by (simp add: unat_of_nat)
    then have "rle_decode (rle_encode (b # xs)) = replicate ?count b @ ?rest"
      using True IH by (simp add: Let_def)
    then show ?thesis using run_split [of b xs] by simp
  next
    case False
    then have "rle_decode (rle_encode (b # xs)) = replicate ?count b @ ?rest"
      using IH b by (simp add: Let_def decode_literals)
    then show ?thesis using run_split [of b xs] by simp
  qed
qed

lemma roundtrip_without_marker:
  "0xFF \<notin> set B \<Longrightarrow>
   success (decompress (data (compress B))) \<and> data (decompress (data (compress B))) = B"
  by (simp add: compress_def decompress_def simulateCompressionOperation_def size_le32_def
      Let_def rle_roundtrip_without_marker)

section \<open>Null or empty datagram\<close>

text \<open>
  C10. \<open>processIncomingPacket\<close> called with a null data pointer or with length zero
  returns \<open>false\<close> and leaves the whole connection state as it was: the byte and packet
  counters, the last-activity timestamp, the trackers and the socket output.
\<close>

theorem null_or_empty_datagram_ignored:
  "data_ptr = None \<or> len = 0 \<Longrightarrow>
   processIncomingPacket fpga now data_ptr len s = Some (False, s)"
  by (auto simp: processIncomingPacket_def split: option.splits)

theorem null_or_empty_datagram_ignored_witness:
  "processIncomingPacket fpga_disconnected 1000000 (Some ping_datagram) 0 handler0
     = Some (False, handler0)
   \<and> processIncomingPacket fpga_disconnected 1000000 None 14 handler0 = Some (False, handler0)"
  using null_or_empty_datagram_ignored [of "Some ping_datagram" 0 fpga_disconnected 1000000 handler0]
    null_or_empty_datagram_ignored [of None 14 fpga_disconnected 1000000 handler0]
  by simp

section \<open>Idempotent ACK\<close>

lemma mark_acked_idem: "mark_acked n (mark_acked n ps) = mark_acked n ps"
  by (induction ps) auto

lemma processFrames_loop_ack:
  "frameType = 0x02 \<or> frameType = 0x03 \<Longrightarrow> set pad \<subseteq> {0x00, 0x01} \<Longrightarrow>
   processFrames_loop fpga now payload (pad @ frameType # body) s = Some (True, ack_applied body s)"
  by (induction pad) (auto simp: ack_applied_def)

lemma ack_applied_idem: "ack_applied body (ack_applied body s) = ack_applied body s"
  by (simp add: ack_applied_def mark_acked_idem)

text \<open>
  C6. A payload that is an ACK frame (type \<open>0x02\<close> or \<open>0x03\<close>), possibly behind
  PADDING and PING bytes, is processed successfully, and processing the same payload
  again on the resulting state leaves that state unchanged, the sent-packet tracker
  included; neither the accelerator nor the clock matters.
\<close>

theorem ack_idempotent:
  assumes "frameType = 0x02 \<or> frameType = 0x03" and "set pad \<subseteq> {0x00, 0x01}"
  shows "\<exists>s1. processFrames fpga now (pad @ frameType # body) s = Some (True, s1)
            \<and> processFrames fpga' now' (pad @ frameType # body) s1 = Some (True, s1)"
  using assms by (simp add: processFrames_def processFrames_loop_ack ack_applied_idem)

theorem ack_idempotent_witness:
  "\<exists>s1. processFrames fpga_disconnected 5 ([0x00] @ 0x02 # [0, 0, 0, 0, 0, 0, 0, 0])
            (send_and_track 0 ping_datagram handler0) = Some (True, s1)
       \<and> processFrames fpga_disconnected 9 ([0x00] @ 0x02 # [0, 0, 0, 0, 0, 0, 0, 0]) s1
            = Some (True, s1)"
  using ack_idempotent [where frameType = "0x02" and pad = "[0x00]" and fpga = fpga_disconnected
      and now = 5 and body = "[0, 0, 0, 0, 0, 0, 0, 0]"
      and s = "send_and_track 0 ping_datagram handler0" and fpga' = fpga_disconnected
      and now' = 9]
  by simp

lemma ack_marks_tracked_packet:
  "map acknowledged (m_sentPackets (snd (the
      (processFrames fpga_disconnected 5 [0x00, 0x02, 0, 0, 0, 0, 0, 0, 0, 0]
         (send_and_track 0 ping_datagram handler0))))) = [True]"
  by code_simp

section \<open>Connection ID length\<close>

text \<open>
  C4. The claim is that a long-header datagram with a connection ID length above 20 is
  rejected. \<open>parsePacket\<close> never compares a length byte with \<open>MAX_CONN_ID_LEN\<close>: the
  Initial packet with a 21-byte destination connection ID is parsed, the 21 bytes become
  the connection's \<open>m_destConnID\<close>, and an Initial response carrying them is sent.
\<close>

theorem oversized_cid_accepted:
  "map_option (\<lambda>(header, payload). (h_type header, h_destConnID header, h_srcConnID header, payload))
      (parsePacket initial_cid21) = Some (INITIAL, replicate 21 0xAA, [], [])
   \<and> map_option (\<lambda>(result, s). (result, m_destConnID s, length (sent_datagrams s),
                     take 27 (hd (sent_datagrams s))))
      (processIncomingPacket fpga_disconnected 0 (Some initial_cid21) 34 handler0)
     = Some (True, replicate 21 0xAA, 1, [0xC3, 0, 0, 0, 1, 21] @ replicate 21 0xAA)
   \<and> \<not> length (replicate 21 (0xAA :: byte)) \<le> MAX_CONN_ID_LEN"
  by code_simp

text \<open>
  With 43 ID bytes the response header no longer fits the 64 bytes that \<open>sendPacket\<close>
  reserves for it, and the software path writes past the end of its buffer.
\<close>

lemma oversized_cid_overruns_send_buffer:
  "parsePacket initial_cid43 \<noteq> None
   \<and> processIncomingPacket fpga_disconnected 0 (Some initial_cid43) 56 handler0 = None"
  by code_simp

section \<open>Reserved bits of the short header\<close>

text \<open>
  C5. The claim is that a short-header datagram with non-zero reserved bits is dropped.
  \<open>parsePacket\<close> looks at the top bit of the first byte only: the datagram with first
  byte \<open>0x70\<close> is parsed as a 1-RTT packet, its packet number is recorded as received,
  its PING frame is processed and an ACK packet is sent in reply.
\<close>

theorem reserved_bits_accepted:
  "map_option (\<lambda>(header, payload). (h_type header, h_packetNumber header, payload))
      (parsePacket short_0x70) = Some (ONE_RTT, 9, [0x01])
   \<and> map_option (\<lambda>(result, s). (result, m_receivedPackets s, sent_datagrams s, m_connected s))
      (processIncomingPacket fpga_disconnected 0 (Some short_0x70) 14 handler0)
     = Some (True, [9],
         [[0x40, 1, 2, 3, 4, 5, 6, 7, 8, 0, 0, 0, 0, 0x02, 0, 0, 0, 9, 0, 0, 0, 0]], True)"
  by code_simp

section \<open>Idle reaping\<close>

lemma elapsed_ms_mono: "a \<le> b \<Longrightarrow> 0 \<le> a - t \<Longrightarrow> elapsed_ms a t \<le> elapsed_ms b t"
  by (auto simp: elapsed_ms_def cpp_div_def sgn_if intro: zdiv_mono1)

lemma filter_keeps_all: "length (filter P xs) = length xs \<Longrightarrow> filter P xs = xs"
  by (metis filter_True length_filter_less nat_less_le)

text \<open>
  C8. In a cleanup pass that runs (at least five seconds after the previous one), a
  connection whose last activity lies more than 30 seconds before the pass is not in the
  connection table afterwards. The clock readings inside the pass are not earlier than
  the reading at its start.
\<close>

theorem idle_reaped:
  assumes gate: "elapsed_s currentTime (lastCleanupTime p) \<ge> 5"
    and mono: "\<forall>i. currentTime \<le> clock i"
    and idle: "currentTime - m_lastActivity h > 30 * 1000000000"
  shows "h \<notin> set (m_connections (cleanupInactiveConnections currentTime clock p))"
proof -
  have inactive: "\<not> isActive (clock i) h" for i
  proof -
    have "30000 \<le> elapsed_ms currentTime (m_lastActivity h)"
      using idle by (simp add: elapsed_ms_def cpp_div_def sgn_if)
    also have "\<dots> \<le> elapsed_ms (clock i) (m_lastActivity h)"
      using mono idle by (intro elapsed_ms_mono) auto
    finally show ?thesis by (simp add: isActive_def IDLE_TIMEOUT_MS_def)
  qed
  let ?f = "filter (\<lambda>(i, handler). isActive (clock i) handler) (enumerate 0 (m_connections p))"
  have notin: "h \<notin> set (map snd ?f)" using inactive by auto
  show ?thesis
  proof (cases "length (map snd ?f) = length (m_connections p)")
    case True
    then have "?f = enumerate 0 (m_connections p)"
      by (intro filter_keeps_all) simp
    then have "map snd ?f = m_connections p" by simp
    with notin have "h \<notin> set (m_connections p)" by simp
    with True gate show ?thesis
      by (simp add: cleanupInactiveConnections_def Let_def)
  next
    case False
    with notin gate show ?thesis
      by (simp add: cleanupInactiveConnections_def Let_def)
  qed
qed

theorem idle_reaped_witness:
  "elapsed_s 31000000000 (lastCleanupTime two_connections) \<ge> 5
   \<and> (\<forall>i. (31000000000 :: int) \<le> 31000000000 + int i)
   \<and> 31000000000 - m_lastActivity handler0 > 30 * 1000000000
   \<and> handler0 \<in> set (m_connections two_connections)
   \<and> handler0 \<notin> set (m_connections
        (cleanupInactiveConnections 31000000000 (\<lambda>i. 31000000000 + int i) two_connections))"
proof -
  have 1: "elapsed_s 31000000000 (lastCleanupTime two_connections) \<ge> 5"
    by (simp add: two_connections_def elapsed_s_def cpp_div_def)
  have 2: "\<forall>i. (31000000000 :: int) \<le> 31000000000 + int i" by simp
  have 3: "31000000000 - m_lastActivity handler0 > 30 * 1000000000"
    by (simp add: handler0_def QUICHandler_new_def)
  have 4: "handler0 \<in> set (m_connections two_connections)"
    by (simp add: two_connections_def)
  from idle_reaped [OF 1 2 3] 1 2 3 4 show ?thesis by blast
qed

lemma cleanup_keeps_active:
  "map m_clientKey (m_connections
      (cleanupInactiveConnections 31000000000 (\<lambda>i. 31000000000 + int i) two_connections))
   = [''10.0.0.8:4433'']"
  by (simp add: cleanupInactiveConnections_def two_connections_def elapsed_s_def elapsed_ms_def
      cpp_div_def isActive_def IDLE_TIMEOUT_MS_def handler0_def QUICHandler_new_def enumerate_eq_zip
      upt_rec)

section \<open>Packet numbers in the sent-packet tracker\<close>

lemma numbered_from_append:
  "numbered_from n k @ numbered_from (n + of_nat k) j = numbered_from n (k + j)"
proof -
  have "[0..<k + j] = [0..<k] @ map (\<lambda>i. i + k) [0..<j]"
    by (metis add.commute map_add_upt upt_add_eq_append zero_le add_0)
  then show ?thesis
    by (simp add: numbered_from_def o_def add.assoc add.commute)
qed

lemma extends_refl: "extends s s"
  unfolding extends_def by (rule exI [of _ 0]) (simp add: numbered_from_def)

lemma extends_trans: "extends s s' \<Longrightarrow> extends s' s'' \<Longrightarrow> extends s s''"
  unfolding extends_def
proof (elim exE conjE)
  fix k j
  assume a: "pns s' = pns s @ numbered_from (m_nextPacketNumber s) k"
    "m_nextPacketNumber s' = m_nextPacketNumber s + of_nat k"
    "pns s'' = pns s' @ numbered_from (m_nextPacketNumber s') j"
    "m_nextPacketNumber s'' = m_nextPacketNumber s' + of_nat j"
  show "\<exists>k. pns s'' = pns s @ numbered_from (m_nextPacketNumber s) k
          \<and> m_nextPacketNumber s'' = m_nextPacketNumber s + of_nat k"
    by (rule exI [of _ "k + j"]) (simp add: a numbered_from_append)
qed

lemma extends_same:
  "pns s' = pns s \<Longrightarrow> m_nextPacketNumber s' = m_nextPacketNumber s \<Longrightarrow> extends s s'"
  unfolding extends_def by (rule exI [of _ 0]) (simp add: numbered_from_def)

lemma extends_send_and_track: "extends s (send_and_track now pkt s)"
  unfolding extends_def
  by (rule exI [of _ 1]) (simp add: numbered_from_def send_and_track_def pns_def)

lemma pns_mark_acked [simp]: "map packetNumber (mark_acked n ps) = map packetNumber ps"
  by (induction ps) auto

lemma pns_update_sentTime [simp]: "map packetNumber (update_sentTime n t ps) = map packetNumber ps"
  by (induction ps) auto

lemma extends_sendPacket:
  "sendPacket fpga now t payload s = Some (r, s') \<Longrightarrow> extends s s'"
  by (auto simp: sendPacket_def Let_def extends_send_and_track extends_refl
      split: if_splits option.splits)

lemma extends_sendAckPacket:
  "sendAckPacket fpga now ns s = Some (r, s') \<Longrightarrow> extends s s'"
  by (auto simp: sendAckPacket_def Let_def extends_refl send_untracked_def pns_def
      intro: extends_same dest: extends_sendPacket split: if_splits)

lemma extends_processFrames_loop:
  "processFrames_loop fpga now payload rest s = Some (r, s') \<Longrightarrow> extends s s'"
  by (induction rest) (auto simp: extends_refl pns_def intro: extends_same
      dest: extends_sendPacket split: if_splits)

lemma extends_processFrames:
  "processFrames fpga now payload s = Some (r, s') \<Longrightarrow> extends s s'"
  by (auto simp: processFrames_def extends_refl dest: extends_processFrames_loop split: if_splits)

lemma extends_track_received: "extends s (track_received header s)"
  by (simp add: track_received_def extends_same pns_def)

lemma extends_handleInitialPacket:
  "handleInitialPacket fpga now header payload s = Some (r, s') \<Longrightarrow> extends s s'"
  by (auto simp: handleInitialPacket_def Let_def split: if_splits
      intro: extends_trans [OF extends_track_received] extends_send_and_track
      dest: extends_sendPacket)

lemma extends_handleHandshakePacket:
  assumes "handleHandshakePacket fpga now header payload s = Some (r, s')"
  shows "extends s s'"
proof -
  from assms obtain p1 p2 where
    1: "sendPacket fpga now HANDSHAKE crypto_response_handshake (track_received header s) = Some p1"
    and 2: "sendPacket fpga now ONE_RTT [0x1E] (snd p1) = Some p2" and 3: "s' = snd p2"
    unfolding handleHandshakePacket_def
    by (fastforce simp: bind_eq_Some_conv split: prod.splits)
  have "extends (track_received header s) (snd p1)"
    using 1 extends_sendPacket by (cases p1) auto
  moreover have "extends (snd p1) s'"
    using 2 3 extends_sendPacket by (cases p2) auto
  ultimately show ?thesis
    using extends_track_received extends_trans by blast
qed

lemma extends_handleOneRttPacket:
  assumes "handleOneRttPacket fpga now header payload s = Some (r, s')"
  shows "extends s s'"
proof -
  from assms obtain p1 where
    1: "processFrames fpga now payload (track_received header s) = Some p1"
    and 2: "s' = snd p1 \<or> sendAckPacket fpga now (m_receivedPackets (snd p1)) (snd p1) = Some (r, s')"
    unfolding handleOneRttPacket_def
    by (fastforce simp: bind_eq_Some_conv split: prod.splits if_splits)
  have "extends (track_received header s) (snd p1)"
    using 1 extends_processFrames by (cases p1) auto
  then have "extends s (snd p1)"
    using extends_track_received extends_trans by blast
  with 2 show ?thesis
    using extends_sendAckPacket extends_trans by blast
qed

lemma retransmit_one_same:
  "pns (retransmit_one fpga now p s) = pns s
   \<and> m_nextPacketNumber (retransmit_one fpga now p s) = m_nextPacketNumber s"
  by (simp add: retransmit_one_def Let_def pns_def)

lemma fold_retransmit_same:
  "pns (fold (retransmit_one fpga now) ps s) = pns s
   \<and> m_nextPacketNumber (fold (retransmit_one fpga now) ps s) = m_nextPacketNumber s"
  by (induction ps arbitrary: s) (simp_all add: retransmit_one_same)

lemma extends_checkForRetransmissions: "extends s (checkForRetransmissions fpga now s)"
  by (simp add: checkForRetransmissions_def extends_same fold_retransmit_same)

lemma extends_note_arrival: "extends s (note_arrival now len s)"
  by (simp add: note_arrival_def updateActivity_def Let_def extends_same pns_def)

lemma extends_store_dest_cid: "extends s (store_dest_cid header s)"
  by (simp add: store_dest_cid_def extends_same pns_def)

lemma extends_dispatch:
  "dispatch fpga now header payload s = Some (r, s') \<Longrightarrow> extends s s'"
  by (cases "h_type header")
    (auto simp: dispatch_def extends_refl dest: extends_handleInitialPacket
       extends_handleHandshakePacket extends_handleOneRttPacket)

lemma extends_processIncomingPacket:
  assumes "processIncomingPacket fpga now data_ptr len s = Some (r, s')"
  shows "extends s s'"
proof (cases data_ptr)
  case None
  with assms show ?thesis by (simp add: processIncomingPacket_def extends_refl)
next
  case (Some buf)
  show ?thesis
  proof (cases "len = 0")
    case True
    with Some assms show ?thesis by (simp add: processIncomingPacket_def extends_refl)
  next
    case False
    show ?thesis
    proof (cases "parsePacket (take len buf)")
      case None
      with \<open>data_ptr = Some buf\<close> False assms show ?thesis
        by (auto simp: processIncomingPacket_def extends_note_arrival)
    next
      case (Some hp)
      obtain header payload where hp: "hp = (header, payload)" by (cases hp)
      from assms \<open>data_ptr = Some buf\<close> False Some hp obtain p4 where
        d: "dispatch fpga now header payload (store_dest_cid header (note_arrival now len s)) = Some p4"
        and s': "s' = checkForRetransmissions fpga now (snd p4)"
        by (fastforce simp: processIncomingPacket_def bind_eq_Some_conv split: prod.splits)
      from d have "extends (store_dest_cid header (note_arrival now len s)) (snd p4)"
        using extends_dispatch by (cases p4) auto
      then have "extends s (snd p4)"
        using extends_note_arrival extends_store_dest_cid extends_trans by blast
      then show ?thesis
        unfolding s' using extends_checkForRetransmissions extends_trans by blast
    qed
  qed
qed

lemma extends_run: "run arrivals s = Some s' \<Longrightarrow> extends s s'"
proof (induction arrivals arbitrary: s)
  case Nil
  then show ?case by (simp add: extends_refl)
next
  case (Cons a arrivals)
  obtain fpga now data_ptr len where a: "a = (fpga, now, data_ptr, len)" by (cases a)
  from Cons.prems a obtain r s1 where
    1: "processIncomingPacket fpga now data_ptr len s = Some (r, s1)" and 2: "run arrivals s1 = Some s'"
    by (auto split: option.splits)
  from extends_processIncomingPacket [OF 1] Cons.IH [OF 2] show ?case by (rule extends_trans)
qed

lemma numbered_sorted: "k \<le> 2 ^ 32 \<Longrightarrow> sorted_wrt (<) (numbered_from 0 k)"
proof -
  assume k: "k \<le> 2 ^ 32"
  have "sorted_wrt (\<lambda>i j. (of_nat i :: 32 word) < of_nat j) [0..<k]"
  proof (rule sorted_wrt_mono_rel [OF _ sorted_wrt_upt])
    fix i j assume "i \<in> set [0..<k]" "j \<in> set [0..<k]" "i < j"
    with k have "i < 2 ^ 32" "j < 2 ^ 32" by auto
    with \<open>i < j\<close> show "(of_nat i :: 32 word) < of_nat j"
      by (simp add: of_nat_word_less_iff take_bit_nat_eq_self)
  qed
  then show ?thesis by (simp add: numbered_from_def sorted_wrt_map)
qed

lemma numbered_wraps: "\<not> sorted_wrt (<) (numbered_from 0 (2 ^ 32 + 1))"
proof
  assume "sorted_wrt (<) (numbered_from 0 (2 ^ 32 + 1))"
  then have "numbered_from 0 (2 ^ 32 + 1) ! 0 < numbered_from 0 (2 ^ 32 + 1) ! (2 ^ 32)"
    by (rule sorted_wrt_nth_less) (simp_all add: numbered_from_def)
  moreover have "numbered_from 0 (2 ^ 32 + 1) ! 0 = 0"
    unfolding numbered_from_def by (subst nth_map) simp_all
  moreover have "numbered_from 0 (2 ^ 32 + 1) ! (2 ^ 32) = 0"
    unfolding numbered_from_def by (subst nth_map) simp_all
  ultimately show False by simp
qed

lemma pns_from_new:
  assumes "run arrivals (QUICHandler_new clientKey accel connID t0) = Some s"
  shows "map packetNumber (m_sentPackets s) = numbered_from 0 (length (m_sentPackets s))"
proof -
  from extends_run [OF assms] obtain k where
    k: "pns s = numbered_from 0 k"
    by (auto simp: extends_def pns_def QUICHandler_new_def)
  then have "length (m_sentPackets s) = k"
    by (metis length_map pns_def numbered_from_def diff_zero length_upt)
  with k show ?thesis by (simp add: pns_def)
qed

lemma software_resend_order:
  "\<not> m_accelerationEnabled s \<Longrightarrow>
   sent_datagrams (fold (retransmit_one fpga now) ps s) = sent_datagrams s @ map packetData ps
   \<and> \<not> m_accelerationEnabled (fold (retransmit_one fpga now) ps s)"
  by (induction ps arbitrary: s) (simp_all add: retransmit_one_def Let_def)

lemma parse_ping:
  "parsePacket (take 14 ping_datagram) =
     Some (\<lparr>h_type = ONE_RTT, h_version = 0, h_destConnID = [1, 2, 3, 4, 5, 6, 7, 8],
            h_srcConnID = [], h_token = [], h_length = 1, h_packetNumber = 9\<rparr>, [0x01])"
  by code_simp

lemma quiet_no_retransmit: "quiet s \<Longrightarrow> packetsToRetransmit 0 s = []"
  by (auto simp: quiet_def packetsToRetransmit_def list_all_iff filter_empty_conv
      elapsed_ms_def cpp_div_def RETRANSMIT_TIMEOUT_MS_def)

lemma ping_step:
  assumes "quiet s"
  shows "\<exists>s'. processIncomingPacket fpga_disconnected 0 (Some ping_datagram) 14 s = Some (True, s')
           \<and> quiet s' \<and> length (m_sentPackets s') = Suc (length (m_sentPackets s))"
proof -
  define header where "header = \<lparr>h_type = ONE_RTT, h_version = 0,
      h_destConnID = [1, 2, 3, 4, 5, 6, 7, 8], h_srcConnID = [], h_token = [], h_length = 1,
      h_packetNumber = 9\<rparr>"
  define s3 where "s3 = track_received header (store_dest_cid header (note_arrival 0 14 s))"
  have q3: "quiet s3" and l3: "m_sentPackets s3 = m_sentPackets s" and r3: "m_receivedPackets s3 \<noteq> []"
    using assms
    by (auto simp: s3_def header_def quiet_def track_received_def store_dest_cid_def
        note_arrival_def updateActivity_def Let_def)
  define pkt where "pkt = [0x40] @ m_destConnID s3 @ be32_bytes (m_nextPacketNumber s3)
                            @ ack_frame (max_element (m_receivedPackets s3))"
  define s4 where "s4 = send_and_track 0 pkt s3"
  have sh: "software_header ONE_RTT 0x40 n s3 = [0x40] @ m_destConnID s3 @ be32_bytes (m_nextPacketNumber s3)" for n
    by (simp add: software_header_def)
  have hl: "length ([0x40] @ m_destConnID s3 @ be32_bytes (m_nextPacketNumber s3)) \<le> 64"
    using q3 by (simp add: be32_bytes_def quiet_def)
  have ack: "sendAckPacket fpga_disconnected 0 (m_receivedPackets s3) s3 = Some (True, s4)"
    using q3 r3 hl
    by (simp add: sendAckPacket_def Let_def sendPacket_def first_byte_def fpga_disconnected_def
        quiet_def s4_def pkt_def sh)
  have q4: "quiet s4"
    using q3 by (simp add: s4_def send_and_track_def quiet_def)
  have "handleOneRttPacket fpga_disconnected 0 header [0x01]
          (store_dest_cid header (note_arrival 0 14 s)) = Some (True, s4)"
    using ack by (simp add: handleOneRttPacket_def processFrames_def s3_def [symmetric])
  moreover have "h_type header = ONE_RTT" by (simp add: header_def)
  ultimately have "dispatch fpga_disconnected 0 header [0x01]
          (store_dest_cid header (note_arrival 0 14 s)) = Some (True, s4)"
    by (simp add: dispatch_def)
  moreover have "parsePacket (take 14 ping_datagram) = Some (header, [0x01])"
    by (simp add: parse_ping header_def)
  ultimately have "processIncomingPacket fpga_disconnected 0 (Some ping_datagram) 14 s
          = Some (True, checkForRetransmissions fpga_disconnected 0 s4)"
    by (simp add: processIncomingPacket_def)
  moreover have "checkForRetransmissions fpga_disconnected 0 s4 = s4"
    by (simp add: checkForRetransmissions_def quiet_no_retransmit [OF q4])
  moreover have "length (m_sentPackets s4) = Suc (length (m_sentPackets s))"
    by (simp add: s4_def send_and_track_def l3)
  ultimately show ?thesis using q4 by simp
qed

lemma ping_run:
  "quiet s \<Longrightarrow> \<exists>s'. run (replicate n ping_arrival) s = Some s' \<and> quiet s'
       \<and> length (m_sentPackets s') = length (m_sentPackets s) + n"
proof (induction n arbitrary: s)
  case 0
  then show ?case by simp
next
  case (Suc n)
  from ping_step [OF Suc.prems] obtain s1 where
    1: "processIncomingPacket fpga_disconnected 0 (Some ping_datagram) 14 s = Some (True, s1)"
    and q1: "quiet s1" and l1: "length (m_sentPackets s1) = Suc (length (m_sentPackets s))"
    by blast
  from Suc.IH [OF q1] obtain s' where
    "run (replicate n ping_arrival) s1 = Some s'" "quiet s'"
    "length (m_sentPackets s') = length (m_sentPackets s1) + n"
    by blast
  with 1 l1 show ?case by (simp add: ping_arrival_def)
qed

lemma quiet_handler0: "quiet handler0"
  by (simp add: quiet_def handler0_def QUICHandler_new_def)

subsection \<open>Connections that never overrun the send buffer\<close>

lemma well_sized_send_and_track [simp]: "well_sized (send_and_track now pkt s) = well_sized s"
  by (simp add: well_sized_def send_and_track_def)

lemma well_sized_send_untracked [simp]: "well_sized (send_untracked pkt s) = well_sized s"
  by (simp add: well_sized_def send_untracked_def)

lemma well_sized_track_received [simp]: "well_sized (track_received header s) = well_sized s"
  by (simp add: well_sized_def track_received_def)

lemma sendPacket_returns: "well_sized s \<Longrightarrow> returns_sized (sendPacket fpga now t payload s)"
  by (cases t)
    (auto simp: returns_sized_def sendPacket_def Let_def first_byte_def software_header_def
      be32_bytes_def well_sized_def MAX_CONN_ID_LEN_def send_and_track_def)

lemma sendAckPacket_returns: "well_sized s \<Longrightarrow> returns_sized (sendAckPacket fpga now ns s)"
  using sendPacket_returns [of s fpga now ONE_RTT]
  by (auto simp: sendAckPacket_def Let_def returns_sized_def)

lemma processFrames_loop_returns:
  "well_sized s \<Longrightarrow> returns_sized (processFrames_loop fpga now payload rest s)"
proof (induction rest)
  case Nil
  then show ?case by (simp add: returns_sized_def)
next
  case (Cons frameType rest)
  then show ?case
    using sendPacket_returns [of s fpga now ONE_RTT payload]
    by (auto simp: returns_sized_def well_sized_def)
qed

lemma processFrames_returns: "well_sized s \<Longrightarrow> returns_sized (processFrames fpga now payload s)"
  using processFrames_loop_returns [of s fpga now payload payload]
  by (auto simp: processFrames_def returns_sized_def)

lemma handleInitialPacket_returns:
  "well_sized s \<Longrightarrow> returns_sized (handleInitialPacket fpga now header payload s)"
  using sendPacket_returns [of "track_received header s" fpga now INITIAL crypto_response_initial]
  by (auto simp: handleInitialPacket_def Let_def returns_sized_def)

lemma returns_sizedE:
  assumes "returns_sized res"
  obtains r s' where "res = Some (r, s')" and "well_sized s'"
  using assms by (auto simp: returns_sized_def split: option.splits)

lemma handleHandshakePacket_returns:
  assumes "well_sized s"
  shows "returns_sized (handleHandshakePacket fpga now header payload s)"
proof -
  from assms have "well_sized (track_received header s)" by simp
  from sendPacket_returns [OF this, of fpga now HANDSHAKE crypto_response_handshake]
  obtain r1 s1 where 1: "sendPacket fpga now HANDSHAKE crypto_response_handshake
                           (track_received header s) = Some (r1, s1)" and w1: "well_sized s1"
    by (rule returns_sizedE)
  from sendPacket_returns [OF w1, of fpga now ONE_RTT "[0x1E]"]
  obtain r2 s2 where 2: "sendPacket fpga now ONE_RTT [0x1E] s1 = Some (r2, s2)" and w2: "well_sized s2"
    by (rule returns_sizedE)
  show ?thesis
    by (simp add: handleHandshakePacket_def 1 2 w2 returns_sized_def)
qed

lemma handleOneRttPacket_returns:
  assumes "well_sized s"
  shows "returns_sized (handleOneRttPacket fpga now header payload s)"
proof -
  from assms have "well_sized (track_received header s)" by simp
  from processFrames_returns [OF this, of fpga now payload]
  obtain ok s1 where 1: "processFrames fpga now payload (track_received header s) = Some (ok, s1)"
    and w1: "well_sized s1"
    by (rule returns_sizedE)
  show ?thesis
    using sendAckPacket_returns [OF w1, of fpga now "m_receivedPackets s1"] w1
    by (simp add: handleOneRttPacket_def 1 returns_sized_def)
qed

lemma well_sized_fold_retransmit:
  "well_sized (fold (retransmit_one fpga now) ps s) = well_sized s"
  by (induction ps arbitrary: s) (simp_all add: retransmit_one_def Let_def well_sized_def)

lemma well_sized_checkForRetransmissions [simp]:
  "well_sized (checkForRetransmissions fpga now s) = well_sized s"
  by (simp add: checkForRetransmissions_def well_sized_fold_retransmit)

lemma store_dest_cid_sized:
  "well_sized s \<Longrightarrow> length (h_destConnID header) \<le> MAX_CONN_ID_LEN \<Longrightarrow>
   well_sized (store_dest_cid header s)"
  by (simp add: store_dest_cid_def well_sized_def)

lemma well_sized_note_arrival [simp]: "well_sized (note_arrival now len s) = well_sized s"
  by (simp add: note_arrival_def updateActivity_def Let_def well_sized_def)

lemma dispatch_returns: "well_sized s \<Longrightarrow> returns_sized (dispatch fpga now header payload s)"
  by (cases "h_type header")
    (simp_all add: dispatch_def handleInitialPacket_returns handleHandshakePacket_returns
       handleOneRttPacket_returns, simp_all add: returns_sized_def)

lemma processIncomingPacket_returns:
  assumes "well_sized s" and "arrival_ok (fpga, now, data_ptr, len)"
  shows "returns_sized (processIncomingPacket fpga now data_ptr len s)"
proof (cases data_ptr)
  case None
  with assms show ?thesis by (simp add: processIncomingPacket_def returns_sized_def)
next
  case (Some buf)
  show ?thesis
  proof (cases "len = 0")
    case True
    with assms Some show ?thesis by (simp add: processIncomingPacket_def returns_sized_def)
  next
    case False
    show ?thesis
    proof (cases "parsePacket (take len buf)")
      case None
      with assms \<open>data_ptr = Some buf\<close> False show ?thesis
        by (simp add: processIncomingPacket_def returns_sized_def)
    next
      case (Some hp)
      obtain header payload where hp: "hp = (header, payload)" by (cases hp)
      have "length (h_destConnID header) \<le> MAX_CONN_ID_LEN"
        using assms(2) Some hp \<open>data_ptr = Some buf\<close> by (simp add: arrival_ok_def)
      with assms(1) have "well_sized (store_dest_cid header (note_arrival now len s))"
        by (simp add: store_dest_cid_sized)
      from dispatch_returns [OF this, of fpga now header payload]
      obtain r s4 where
        h: "dispatch fpga now header payload (store_dest_cid header (note_arrival now len s)) = Some (r, s4)"
        and w4: "well_sized s4"
        by (rule returns_sizedE)
      show ?thesis
        using \<open>data_ptr = Some buf\<close> False Some hp
        by (simp add: processIncomingPacket_def h w4 returns_sized_def)
    qed
  qed
qed

lemma run_returns:
  "well_sized s \<Longrightarrow> list_all arrival_ok arrivals \<Longrightarrow> \<exists>s'. run arrivals s = Some s' \<and> well_sized s'"
proof (induction arrivals arbitrary: s)
  case Nil
  then show ?case by simp
next
  case (Cons a arrivals)
  obtain fpga now data_ptr len where a: "a = (fpga, now, data_ptr, len)" by (cases a)
  from Cons.prems a have ok: "arrival_ok (fpga, now, data_ptr, len)" and rest: "list_all arrival_ok arrivals"
    by simp_all
  from processIncomingPacket_returns [OF Cons.prems(1) ok]
  obtain r s1 where 1: "processIncomingPacket fpga now data_ptr len s = Some (r, s1)"
    and w1: "well_sized s1"
    by (rule returns_sizedE)
  from Cons.IH [OF w1 rest] 1 a show ?case by simp
qed

lemma new_handler_well_sized:
  "length connID = 8 \<Longrightarrow> well_sized (QUICHandler_new clientKey accel connID t0)"
  by (simp add: well_sized_def QUICHandler_new_def MAX_CONN_ID_LEN_def)

subsection \<open>The claims\<close>

lemma run_appends_only:
  "run arrivals s = Some s' \<Longrightarrow>
   \<exists>later. map packetNumber (m_sentPackets s') = map packetNumber (m_sentPackets s) @ later"
  using extends_run [of arrivals s s'] by (auto simp: extends_def pns_def)

lemma two_pings:
  "\<exists>s. run (replicate 2 ping_arrival) handler0 = Some s \<and> length (m_sentPackets s) = 2"
  using ping_run [OF quiet_handler0, of 2] by (auto simp: handler0_def QUICHandler_new_def)

text \<open>
  C3. Over the life of a connection (any sequence of incoming datagrams from the freshly
  constructed handler that runs without the buffer overrun of \<open>sendPacket\<close>, as every
  sequence with connection IDs of at most 20 bytes does by \<open>run_returns\<close>), the tracker
  only grows at its end (\<open>run_appends_only\<close>), and the packet numbers recorded in it are
  strictly increasing as long as at most \<open>2\<^sup>3\<^sup>2\<close> packets have been recorded, that is
  until the 32-bit counter \<open>m_nextPacketNumber\<close> has wrapped around.
\<close>

theorem packet_numbers_strictly_increasing:
  assumes "run arrivals (QUICHandler_new clientKey accel connID t0) = Some s"
    and "length (m_sentPackets s) \<le> 2 ^ 32"
  shows "sorted_wrt (<) (map packetNumber (m_sentPackets s))"
  using pns_from_new [OF assms(1)] numbered_sorted [OF assms(2)] by simp

theorem packet_numbers_strictly_increasing_witness:
  "run (replicate 2 ping_arrival) handler0 \<noteq> None
   \<and> length (m_sentPackets (the (run (replicate 2 ping_arrival) handler0))) \<le> 2 ^ 32
   \<and> sorted_wrt (<) (map packetNumber
         (m_sentPackets (the (run (replicate 2 ping_arrival) handler0))))"
proof -
  from two_pings obtain s where
    s: "run (replicate 2 ping_arrival) handler0 = Some s" and l: "length (m_sentPackets s) = 2"
    by blast
  from l have l': "length (m_sentPackets s) \<le> 2 ^ 32" by simp
  from packet_numbers_strictly_increasing [OF s [unfolded handler0_def] l'] s l'
  show ?thesis by simp
qed

text \<open>
  The claim as stated, without the bound, fails: after \<open>2\<^sup>3\<^sup>2 + 1\<close> PING datagrams the
  connection has recorded \<open>2\<^sup>3\<^sup>2 + 1\<close> ACK packets, and the last one carries packet
  number 0 again.
\<close>

theorem packet_numbers_wrap:
  "\<not> sorted_wrt (<) (map packetNumber
        (m_sentPackets (the (run (replicate (2 ^ 32 + 1) ping_arrival) handler0))))"
proof -
  from ping_run [OF quiet_handler0, of "2 ^ 32 + 1"] obtain s where
    s: "run (replicate (2 ^ 32 + 1) ping_arrival) handler0 = Some s"
    and l: "length (m_sentPackets s) = 2 ^ 32 + 1"
    by (auto simp: handler0_def QUICHandler_new_def)
  from pns_from_new [OF s [unfolded handler0_def]] l
  have "map packetNumber (m_sentPackets s) = numbered_from 0 (2 ^ 32 + 1)" by simp
  with numbered_wraps s show ?thesis by simp
qed

text \<open>
  C9. For a connection as in C3 with at most \<open>2\<^sup>3\<^sup>2\<close> recorded packets, the scan of
  \<open>checkForRetransmissions\<close> yields the timed-out unacknowledged packets in ascending
  packet-number order, and without acceleration their stored bytes are re-sent in that
  order.
\<close>

theorem retransmit_scan_ascending:
  assumes "run arrivals (QUICHandler_new clientKey accel connID t0) = Some s"
    and "length (m_sentPackets s) \<le> 2 ^ 32"
  shows "sorted_wrt (<) (map packetNumber (packetsToRetransmit now s))
       \<and> (\<not> m_accelerationEnabled s \<longrightarrow>
            sent_datagrams (checkForRetransmissions fpga now s)
              = sent_datagrams s @ map packetData (packetsToRetransmit now s))"
proof -
  have "sorted_wrt (<) (map packetNumber (m_sentPackets s))"
    using pns_from_new [OF assms(1)] numbered_sorted [OF assms(2)] by simp
  then have "sorted_wrt (<) (map packetNumber (packetsToRetransmit now s))"
    by (simp add: packetsToRetransmit_def sorted_wrt_map sorted_wrt_filter)
  then show ?thesis
    by (simp add: checkForRetransmissions_def software_resend_order)
qed

theorem retransmit_scan_ascending_witness:
  "run (replicate 2 ping_arrival) handler0 \<noteq> None
   \<and> length (m_sentPackets (the (run (replicate 2 ping_arrival) handler0))) \<le> 2 ^ 32
   \<and> sorted_wrt (<) (map packetNumber
         (packetsToRetransmit 1000000000 (the (run (replicate 2 ping_arrival) handler0))))
   \<and> sent_datagrams (checkForRetransmissions fpga_disconnected 1000000000
         (the (run (replicate 2 ping_arrival) handler0)))
       = sent_datagrams (the (run (replicate 2 ping_arrival) handler0))
         @ map packetData
             (packetsToRetransmit 1000000000 (the (run (replicate 2 ping_arrival) handler0)))"
proof -
  from ping_run [OF quiet_handler0, of 2] obtain s where
    s: "run (replicate 2 ping_arrival) handler0 = Some s" and q: "quiet s"
    and l: "length (m_sentPackets s) = 2"
    by (auto simp: handler0_def QUICHandler_new_def)
  from l have l': "length (m_sentPackets s) \<le> 2 ^ 32" by simp
  from q have a: "\<not> m_accelerationEnabled s" by (simp add: quiet_def)
  from retransmit_scan_ascending [OF s [unfolded handler0_def] l', of 1000000000 fpga_disconnected]
    s l' a
  show ?thesis by simp
qed

lemma two_pings_retransmitted:
  "map packetNumber (packetsToRetransmit 1000000000 (the (run (replicate 2 ping_arrival) handler0)))
     = [0, 1]"
  by code_simp

text \<open>
  The claim as stated, without the bound, fails on the connection of C3's counterexample:
  one second later every recorded packet is due, and the scan ends with packet number 0
  after \<open>2\<^sup>3\<^sup>2 - 1\<close>.
\<close>

theorem retransmit_scan_wrap:
  "\<not> sorted_wrt (<) (map packetNumber
        (packetsToRetransmit 1000000000 (the (run (replicate (2 ^ 32 + 1) ping_arrival) handler0))))"
proof -
  from ping_run [OF quiet_handler0, of "2 ^ 32 + 1"] obtain s where
    s: "run (replicate (2 ^ 32 + 1) ping_arrival) handler0 = Some s"
    and q: "quiet s"
    and l: "length (m_sentPackets s) = 2 ^ 32 + 1"
    by (auto simp: handler0_def QUICHandler_new_def)
  from pns_from_new [OF s [unfolded handler0_def]] l
  have "map packetNumber (m_sentPackets s) = numbered_from 0 (2 ^ 32 + 1)" by simp
  moreover have "packetsToRetransmit 1000000000 s = m_sentPackets s"
    using q by (auto simp: quiet_def packetsToRetransmit_def list_all_iff
        elapsed_ms_def cpp_div_def RETRANSMIT_TIMEOUT_MS_def intro!: filter_True)
  ultimately show ?thesis using numbered_wraps s by simp
qed

section \<open>Accelerator: the state machine\<close>

text \<open>
  The payload copy of \<open>FRAME_DATA\<close> does not end once it is entered, so the branch
  returns only when no input is pending, and then with a PING frame.
\<close>

lemma copy_payload_diverges:
  assumes "in_buf_rdptr p \<noteq> in_buf_wrptr p"
  shows "copy_payload p q = None"
proof -
  have "in_buf_rdptr p = in_buf_wrptr p" if "copy_payload p q = Some y" for y
    by (rule copy_payload.raw_induct [where P = "\<lambda>p q y. in_buf_rdptr p = in_buf_wrptr p", OF _ that])
      (simp split: if_splits)
  with assms show ?thesis by (cases "copy_payload p q") auto
qed

lemma frame_payload_Some:
  "frame_payload p q = Some q' \<longleftrightarrow> \<not> in_buf_rdptr p < in_buf_wrptr p \<and> q' = advance_out p q"
  by (auto simp: frame_payload_def copy_payload_diverges)

lemma frame_data_Some:
  "frame_data p q = Some q' \<longleftrightarrow>
     \<not> in_buf_rdptr p < in_buf_wrptr p
     \<and> q' = (track_packet p (advance_out p (copy_header p q)))
              \<lparr>packet_count_sent := packet_count_sent p + 1, next_state := OUTPUT_DATA\<rparr>"
proof (cases "frame_payload p (copy_header p q)")
  case None
  then have "in_buf_rdptr p < in_buf_wrptr p"
    using frame_payload_Some [of p "copy_header p q"] by (auto simp: frame_payload_def)
  with None show ?thesis by (simp add: frame_data_def)
next
  case (Some q1)
  then show ?thesis
    using frame_payload_Some [of p "copy_header p q" q1] by (auto simp: frame_data_def)
qed

lemma frame_data_None:
  "frame_data p q = None \<longleftrightarrow> in_buf_rdptr p < in_buf_wrptr p"
  using frame_data_Some [of p q] by (cases "frame_data p q") auto

text \<open>What the branches leave as it is.\<close>

lemma timer_fields [simp]:
  "stream_count (timer p q) = stream_count q"
  "streams (timer p q) = streams q"
  "packet_tracker (timer p q) = packet_tracker q"
  "next_state (timer p q) = next_state q"
  "state (timer p q) = state q"
  "header_valid (timer p q) = header_valid q"
  "validation_error (timer p q) = validation_error q"
  "out_buf_wrptr (timer p q) = out_buf_wrptr q"
  by (simp_all add: timer_def)

lemma idle_fields [simp]:
  "stream_count (idle i p q) = stream_count q"
  "streams (idle i p q) = streams q"
  "packet_tracker (idle i p q) = packet_tracker q"
  "state (idle i p q) = state q"
  by (simp_all add: idle_def Let_def)

lemma operation_state_live [simp]:
  "operation_state op \<noteq> PROCESS_PAYLOAD" "operation_state op \<noteq> PROCESS_STREAM_FRAME"
  "PROCESS_PAYLOAD \<noteq> operation_state op" "PROCESS_STREAM_FRAME \<noteq> operation_state op"
  by (simp_all add: operation_state_def)

lemma load_data_fields [simp]:
  "stream_count (load_data i p q) = stream_count q"
  "streams (load_data i p q) = streams q"
  "packet_tracker (load_data i p q) = packet_tracker q"
  "state (load_data i p q) = state q"
proof -
  let ?f = "\<lambda>k q. q\<lparr>input_buffer := (input_buffer q)(in_buf_wrptr p := word_byte (data_in i) k),
                      in_buf_wrptr := (in_buf_wrptr p + 1) mod BUFFER_SIZE\<rparr>"
  have "stream_count (fold ?f ks q) = stream_count q \<and> streams (fold ?f ks q) = streams q
      \<and> packet_tracker (fold ?f ks q) = packet_tracker q \<and> state (fold ?f ks q) = state q" for ks
    by (induction ks arbitrary: q) simp_all
  then show "stream_count (load_data i p q) = stream_count q"
    "streams (load_data i p q) = streams q"
    "packet_tracker (load_data i p q) = packet_tracker q"
    "state (load_data i p q) = state q"
    by (simp_all add: load_data_def Let_def)
qed

lemma load_data_next_state:
  "next_state (load_data i p q) = next_state q \<or> next_state (load_data i p q) = VALIDATE_HEADER"
proof -
  let ?f = "\<lambda>k q. q\<lparr>input_buffer := (input_buffer q)(in_buf_wrptr p := word_byte (data_in i) k),
                      in_buf_wrptr := (in_buf_wrptr p + 1) mod BUFFER_SIZE\<rparr>"
  have "next_state (fold ?f ks q) = next_state q" for ks
    by (induction ks arbitrary: q) simp_all
  then show ?thesis by (simp add: load_data_def Let_def)
qed

lemma invalid_if_fields [simp]:
  "stream_count (invalid_if c e q) = stream_count q"
  "streams (invalid_if c e q) = streams q"
  "packet_tracker (invalid_if c e q) = packet_tracker q"
  "next_state (invalid_if c e q) = next_state q"
  "state (invalid_if c e q) = state q"
  by (simp_all add: invalid_if_def set_invalid_def)

lemma validate_header_fields [simp]:
  "stream_count (validate_header i p q) = stream_count q"
  "streams (validate_header i p q) = streams q"
  "packet_tracker (validate_header i p q) = packet_tracker q"
  "next_state (validate_header i p q) = next_state q"
  "state (validate_header i p q) = state q"
  by (simp_all add: validate_header_def validate_long_def validate_short_def set_invalid_def Let_def)

lemma create_header_fields [simp]:
  "stream_count (create_header i p q) = stream_count q"
  "streams (create_header i p q) = streams q"
  "packet_tracker (create_header i p q) = packet_tracker q"
  "next_state (create_header i p q) = FRAME_DATA"
  "state (create_header i p q) = state q"
  by (simp_all add: create_header_def)

lemma advance_out_fields [simp]:
  "stream_count (advance_out p q) = stream_count q"
  "streams (advance_out p q) = streams q"
  "packet_tracker (advance_out p q) = packet_tracker q"
  "next_state (advance_out p q) = next_state q"
  "state (advance_out p q) = state q"
  by (simp_all add: advance_out_def)

lemma copy_header_fields [simp]:
  "stream_count (copy_header p q) = stream_count q"
  "streams (copy_header p q) = streams q"
  "packet_tracker (copy_header p q) = packet_tracker q"
  "next_state (copy_header p q) = next_state q"
  "state (copy_header p q) = state q"
proof -
  have "stream_count (fold (\<lambda>k. advance_out p) ks q) = stream_count q
      \<and> streams (fold (\<lambda>k. advance_out p) ks q) = streams q
      \<and> packet_tracker (fold (\<lambda>k. advance_out p) ks q) = packet_tracker q
      \<and> next_state (fold (\<lambda>k. advance_out p) ks q) = next_state q
      \<and> state (fold (\<lambda>k. advance_out p) ks q) = state q" for ks :: "nat list"
    by (induction ks arbitrary: q) simp_all
  then show "stream_count (copy_header p q) = stream_count q"
    "streams (copy_header p q) = streams q"
    "packet_tracker (copy_header p q) = packet_tracker q"
    "next_state (copy_header p q) = next_state q"
    "state (copy_header p q) = state q"
    by (simp_all add: copy_header_def)
qed

lemma track_packet_fields [simp]:
  "stream_count (track_packet p q) = stream_count q"
  "streams (track_packet p q) = streams q"
  "next_state (track_packet p q) = next_state q"
  "state (track_packet p q) = state q"
  by (simp_all add: track_packet_def)

lemma process_payload_fields [simp]:
  "stream_count (process_payload p q) = stream_count q"
  "streams (process_payload p q) = streams q"
  "packet_tracker (process_payload p q) = packet_tracker q"
  "state (process_payload p q) = state q"
  by (simp_all add: process_payload_def set_invalid_def Let_def)

lemma process_stream_frame_fields [simp]:
  "packet_tracker (process_stream_frame p q) = packet_tracker q"
  "next_state (process_stream_frame p q) = COMPLETE"
  "state (process_stream_frame p q) = state q"
  "header_valid (process_stream_frame p q) = header_valid q"
  "validation_error (process_stream_frame p q) = validation_error q"
  "out_buf_wrptr (process_stream_frame p q) = out_buf_wrptr q"
  by (simp_all add: process_stream_frame_def Let_def split: option.splits)

lemma process_ack_fields [simp]:
  "stream_count (process_ack i p q) = stream_count q"
  "streams (process_ack i p q) = streams q"
  "next_state (process_ack i p q) = COMPLETE"
  "state (process_ack i p q) = state q"
  by (simp_all add: process_ack_def Let_def split: option.splits)

lemma check_retransmit_fields [simp]:
  "stream_count (check_retransmit i p q) = stream_count q"
  "streams (check_retransmit i p q) = streams q"
  "state (check_retransmit i p q) = state q"
  by (simp_all add: check_retransmit_def Let_def split: option.splits)

lemma check_retransmit_next_state:
  "next_state (check_retransmit i p q) \<in> {next_state q, RETRANSMIT_PACKET, COMPLETE}"
  by (simp add: check_retransmit_def Let_def split: option.splits)

lemma output_data_fields [simp]:
  "stream_count (output_data i p q) = stream_count q"
  "streams (output_data i p q) = streams q"
  "packet_tracker (output_data i p q) = packet_tracker q"
  "state (output_data i p q) = state q"
  by (simp_all add: output_data_def)

lemma output_data_next_state:
  "next_state (output_data i p q) \<in> {next_state q, COMPLETE}"
  by (simp add: output_data_def)

lemma complete_fields [simp]:
  "stream_count (complete i p q) = stream_count q"
  "streams (complete i p q) = streams q"
  "packet_tracker (complete i p q) = packet_tracker q"
  "state (complete i p q) = state q"
  by (simp_all add: complete_def Let_def)

lemma complete_next_state:
  "next_state (complete i p q) \<in> {next_state q, IDLE}"
  by (simp add: complete_def Let_def)

lemma idle_next_state:
  "next_state (idle i p q) = next_state q \<or> next_state (idle i p q) = operation_state (operation i)"
  by (simp add: idle_def Let_def)

lemma edge_streams:
  assumes "rising_edge i p = Some p'" and "state p \<noteq> PROCESS_STREAM_FRAME"
  shows "stream_count p' = stream_count p \<and> streams p' = streams p"
  using assms by (cases "state p") (auto simp: rising_edge_def Let_def frame_data_Some)

lemma edge_stream_frame:
  assumes "state p = PROCESS_STREAM_FRAME"
  shows "rising_edge i p = Some (process_stream_frame p ((timer p p)\<lparr>state := next_state p\<rparr>))"
  using assms by (simp add: rising_edge_def Let_def)

text \<open>A rising edge has a result unless it runs \<open>FRAME_DATA\<close> with input pending.\<close>

lemma edge_returns:
  "rising_edge i p = None \<longleftrightarrow> state p = FRAME_DATA \<and> in_buf_rdptr p < in_buf_wrptr p"
  by (cases "state p") (simp_all add: rising_edge_def Let_def frame_data_None)

text \<open>
  No assignment gives \<open>next_state\<close> the value \<open>PROCESS_PAYLOAD\<close>, and only the branch
  \<open>PROCESS_PAYLOAD\<close> assigns \<open>PROCESS_STREAM_FRAME\<close>: in no history does the state register
  hold either, so that the branch \<open>PROCESS_STREAM_FRAME\<close> never runs.
\<close>

lemma edge_live:
  assumes "live p" and "rising_edge i p = Some p'"
  shows "live p'"
proof -
  let ?q = "(timer p p)\<lparr>state := next_state p\<rparr>"
  have q: "state ?q = next_state p" "next_state ?q = next_state p" by simp_all
  show ?thesis
  proof (cases "state p")
    case IDLE
    with assms q idle_next_state [of i p ?q] show ?thesis
      by (auto simp: rising_edge_def Let_def live_def)
  next
    case LOAD_DATA
    with assms q load_data_next_state [of i p ?q] show ?thesis
      by (auto simp: rising_edge_def Let_def live_def)
  next
    case FRAME_DATA
    with assms q show ?thesis
      by (auto simp: rising_edge_def Let_def live_def frame_data_Some)
  next
    case CHECK_RETRANSMIT
    with assms q check_retransmit_next_state [of i p ?q] show ?thesis
      by (auto simp: rising_edge_def Let_def live_def)
  next
    case OUTPUT_DATA
    with assms q output_data_next_state [of i p ?q] show ?thesis
      by (auto simp: rising_edge_def Let_def live_def)
  next
    case COMPLETE
    with assms q complete_next_state [of i p ?q] show ?thesis
      by (auto simp: rising_edge_def Let_def live_def)
  qed (use assms q in \<open>auto simp: rising_edge_def Let_def live_def\<close>)
qed

lemma logic_live: "live p \<Longrightarrow> live (next_state_logic i p)"
  by (cases "state p") (simp_all add: next_state_logic_def Let_def live_def)

lemma occur_live:
  assumes "live p" and "occur e p = Some p'"
  shows "live p'"
proof (cases e)
  case RESET
  with assms show ?thesis by (auto simp: processor_reset_def live_def)
next
  case (EDGE i)
  with assms show ?thesis by (auto intro: edge_live)
next
  case (LOGIC i)
  with assms show ?thesis by (auto intro: logic_live)
qed

lemma history_from_live:
  "live p \<Longrightarrow> history_from events p = Some q \<Longrightarrow> live q"
proof (induction events arbitrary: p)
  case Nil
  then show ?case by simp
next
  case (Cons e es)
  then show ?case by (auto split: option.splits dest: occur_live)
qed

lemma init_live: "live processor_init"
  by (simp add: live_def processor_init_def processor_reset_def)

lemma stream_frame_branch_never_runs:
  assumes "history events = Some q"
  shows "state q \<noteq> PROCESS_PAYLOAD \<and> state q \<noteq> PROCESS_STREAM_FRAME"
  using history_from_live [OF init_live] assms by (auto simp: history_def live_def)

section \<open>Accelerator: the stream table\<close>

lemma receive_on_id [simp]: "stream_id (receive_on e f t old r) = stream_id r"
  by (simp add: receive_on_def Let_def)







lemma init_count: "stream_count processor_init = 0"
  by (simp add: processor_init_def processor_reset_def)

text \<open>
  The two branches that create streams are \<open>PROCESS_STREAM_FRAME\<close>, which never runs, and
  \<open>FRAME_DATA\<close> with input pending, which does not return: no history creates a stream.
\<close>

lemma occur_no_stream:
  assumes "live p" and "stream_count p = 0" and "occur e p = Some p'"
  shows "stream_count p' = 0"
proof (cases e)
  case RESET
  with assms show ?thesis by (auto simp: processor_reset_def)
next
  case (EDGE i)
  with assms show ?thesis using edge_streams [of i p p'] by (auto simp: live_def)
next
  case (LOGIC i)
  with assms show ?thesis
    by (cases "state p") (auto simp: next_state_logic_def Let_def)
qed

lemma history_from_no_stream:
  "live p \<Longrightarrow> stream_count p = 0 \<Longrightarrow> history_from events p = Some q \<Longrightarrow> stream_count q = 0"
proof (induction events arbitrary: p)
  case Nil
  then show ?case by simp
next
  case (Cons e es)
  then show ?case by (auto split: option.splits dest: occur_no_stream occur_live)
qed

lemma no_history_creates_a_stream:
  "history events = Some q \<Longrightarrow> stream_count q = 0"
  using history_from_no_stream [OF init_live init_count] by (simp add: history_def)







text \<open>
  The same edge with 63 streams tracked: the frame opens the stream at index 63, and the
  signals that could tell a rejection are as they are at the full table. In no state
  does the branch touch \<open>header_valid\<close>, \<open>validation_error\<close> or the output buffer.
\<close>

lemma frame_accepted_below_capacity:
  "map_option (\<lambda>p'. (header_valid p', validation_error p', next_state p', in_buf_rdptr p',
                      out_buf_wrptr p', stream_count p', stream_id (streams p' ! 63),
                      recv_offset (streams p' ! 63)))
     (rising_edge quiet_ports (full_table\<lparr>stream_count := 63\<rparr>))
   = Some (True, VALID_HEADER, COMPLETE, 8, 0, 64, 63, 8)"
  by code_simp

lemma stream_frame_raises_no_error:
  assumes "state p = PROCESS_STREAM_FRAME"
  shows "\<exists>p'. rising_edge i p = Some p' \<and> header_valid p' = header_valid p
     \<and> validation_error p' = validation_error p \<and> out_buf_wrptr p' = out_buf_wrptr p"
  using assms by (simp add: edge_stream_frame)

section \<open>Accelerator: the packet tracker\<close>

text \<open>
  \<open>CHECK_RETRANSMIT\<close> selects a tracker slot only while its \<open>retx_count\<close> is below 10: in
  every history the retry count of every slot is at most 10. A slot is never cleared.
\<close>

lemma list_update_all: "list_all Q xs \<Longrightarrow> Q x \<Longrightarrow> list_all Q (xs[k := x])"
  by (induction xs arbitrary: k) (auto split: nat.splits)

lemma slot_ok_acked: "slot_ok slot \<Longrightarrow> slot_ok (map_option (\<lambda>r. r\<lparr>acked := True\<rparr>) slot)"
  by (cases slot) (simp_all add: slot_ok_def)

lemma process_ack_ok: "tracker_ok q \<Longrightarrow> tracker_ok (process_ack i p q)"
proof -
  assume ok: "tracker_ok q"
  have "list_all slot_ok ((packet_tracker q)[k :=
          map_option (\<lambda>r. r\<lparr>acked := True\<rparr>) (packet_tracker q ! k)])" for k
  proof (cases "k < length (packet_tracker q)")
    case True
    with ok have "slot_ok (packet_tracker q ! k)" by (simp add: tracker_ok_def list_all_length)
    with ok show ?thesis by (simp add: tracker_ok_def list_update_all slot_ok_acked)
  next
    case False
    with ok show ?thesis by (simp add: tracker_ok_def list_update_beyond)
  qed
  then show ?thesis
    using ok by (simp add: tracker_ok_def process_ack_def Let_def split: option.splits)
qed

lemma check_retransmit_ok: "tracker_ok q \<Longrightarrow> tracker_ok (check_retransmit i p q)"
proof -
  assume ok: "tracker_ok q"
  have "list_all slot_ok ((packet_tracker q)[k :=
          map_option (\<lambda>r. r\<lparr>timestamp := current_time p,
                               retx_count := retx_count (the (packet_tracker p ! k)) + 1\<rparr>)
            (packet_tracker q ! k)])"
    if "needs_retx (current_time p) (retx_timeout i) (packet_tracker p ! k)" for k
  proof -
    from that have "retx_count (the (packet_tracker p ! k)) + 1 \<le> 10"
      by (cases "packet_tracker p ! k") (simp_all add: needs_retx_def)
    then have "slot_ok (map_option (\<lambda>r. r\<lparr>timestamp := current_time p,
                               retx_count := retx_count (the (packet_tracker p ! k)) + 1\<rparr>)
            (packet_tracker q ! k))"
      by (cases "packet_tracker q ! k") (simp_all add: slot_ok_def)
    with ok show ?thesis by (simp add: tracker_ok_def list_update_all)
  qed
  then show ?thesis
    using ok
    by (auto simp: tracker_ok_def check_retransmit_def Let_def find_Some_iff split: option.splits)
qed

lemma track_packet_ok: "tracker_ok q \<Longrightarrow> tracker_ok (track_packet p q)"
  by (simp add: tracker_ok_def track_packet_def list_update_all slot_ok_def)

lemma edge_ok:
  assumes "tracker_ok p" and "rising_edge i p = Some p'"
  shows "tracker_ok p'"
proof -
  let ?q = "(timer p p)\<lparr>state := next_state p\<rparr>"
  have q: "tracker_ok ?q" using assms(1) by (simp add: tracker_ok_def)
  show ?thesis
  proof (cases "state p")
    case FRAME_DATA
    with assms(2) have "p' = (track_packet p (advance_out p (copy_header p ?q)))
              \<lparr>packet_count_sent := packet_count_sent p + 1, next_state := OUTPUT_DATA\<rparr>"
      by (simp add: rising_edge_def Let_def frame_data_Some)
    moreover have "tracker_ok (track_packet p (advance_out p (copy_header p ?q)))"
      using q by (intro track_packet_ok) (simp add: tracker_ok_def)
    ultimately show ?thesis by (simp add: tracker_ok_def)
  next
    case PROCESS_ACK
    with assms(2) q show ?thesis by (auto simp: rising_edge_def Let_def intro: process_ack_ok)
  next
    case CHECK_RETRANSMIT
    with assms(2) q show ?thesis by (auto simp: rising_edge_def Let_def intro: check_retransmit_ok)
  qed (use assms q in \<open>auto simp: rising_edge_def Let_def tracker_ok_def\<close>)
qed

lemma occur_ok:
  assumes "tracker_ok p" and "occur e p = Some p'"
  shows "tracker_ok p'"
proof (cases e)
  case RESET
  with assms show ?thesis by (auto simp: processor_reset_def tracker_ok_def)
next
  case (EDGE i)
  with assms show ?thesis by (auto intro: edge_ok)
next
  case (LOGIC i)
  with assms show ?thesis
    by (cases "state p") (auto simp: next_state_logic_def Let_def tracker_ok_def)
qed

lemma history_from_ok:
  "tracker_ok p \<Longrightarrow> history_from events p = Some q \<Longrightarrow> tracker_ok q"
proof (induction events arbitrary: p)
  case Nil
  then show ?case by simp
next
  case (Cons e es)
  then show ?case by (auto split: option.splits dest: occur_ok)
qed

lemma init_ok: "tracker_ok processor_init"
  by (simp add: tracker_ok_def processor_init_def processor_reset_def slot_ok_def list_all_iff)

lemma slot_retry_count_bounded:
  assumes "history events = Some q" and "k < length (packet_tracker q)"
    and "packet_tracker q ! k = Some r"
  shows "retx_count r \<le> 10"
proof -
  have "tracker_ok q" using history_from_ok [OF init_ok] assms(1) by (simp add: history_def)
  with assms(2,3) show ?thesis by (auto simp: tracker_ok_def list_all_length slot_ok_def split: option.splits)
qed

section \<open>Retransmission cap\<close>

text \<open>
  C2. The claim has no packet retransmitted more than 10 times, and a packet abandoned
  (removed from the tracker) at 10. \<open>checkForRetransmissions\<close> keeps no retry count. A
  connection without acceleration answers a PING with an ACK packet, number 0, which
  is never acknowledged. Eleven datagrams follow, 600 ms apart; the retransmission check
  at the end of \<open>processIncomingPacket\<close> sends the packet again after each. Twelve
  datagrams have left the socket, each with the bytes of packet 0: the packet has been
  retransmitted eleven times, and it is still in the tracker, unacknowledged.
\<close>

theorem retransmitted_eleven_times:
  "map_option (\<lambda>s. (length (sent_datagrams s), remdups (sent_datagrams s),
                     map packetNumber (m_sentPackets s), map acknowledged (m_sentPackets s)))
     (run (ping_arrival # late_arrivals) handler0)
   = Some (12, [[0x40, 1, 2, 3, 4, 5, 6, 7, 8, 0, 0, 0, 0, 0x02, 0, 0, 0, 9, 0, 0, 0, 0]],
           [0], [False])"
  by code_simp

section \<open>Accelerator: header validation\<close>

lemma invalid_if_stays: "\<not> header_valid q \<Longrightarrow> \<not> header_valid (invalid_if c e q)"
  by (simp add: invalid_if_def set_invalid_def)

lemma invalid_if_sets: "c \<Longrightarrow> \<not> header_valid (invalid_if c e q)"
  by (simp add: invalid_if_def set_invalid_def)

text \<open>
  The accelerator's \<open>VALIDATE_HEADER\<close> branch does what \<open>parsePacket\<close> leaves out: a
  long header whose destination connection ID length is above 20, and a short header
  with a reserved bit set, end with \<open>header_valid\<close> cleared.
\<close>

lemma vhdl_rejects_long_cid:
  assumes "in_buf_wrptr p \<ge> 6" and "bit (input_buffer p 0) 7" and "uint (input_buffer p 5) > 20"
  shows "\<not> header_valid (validate_header i p q)"
  using assms
  by (simp add: validate_header_def validate_long_def Let_def invalid_if_stays invalid_if_sets)

lemma vhdl_rejects_reserved_bits:
  assumes "in_buf_wrptr p > 0" and "\<not> bit (input_buffer p 0) 7" and "input_buffer p 0 AND 0x1F \<noteq> 0"
  shows "\<not> header_valid (validate_header i p q)"
  using assms
  by (simp add: validate_header_def validate_short_def Let_def invalid_if_stays invalid_if_sets)

lemma vhdl_validation_edge:
  assumes "state p = VALIDATE_HEADER"
  shows "rising_edge i p = Some (validate_header i p ((timer p p)\<lparr>state := next_state p\<rparr>))"
  using assms by (simp add: rising_edge_def Let_def)

lemma vhdl_reserved_bits_error_code:
  assumes "\<not> bit (input_buffer p 0) 7" and "input_buffer p 0 AND 0x1F \<noteq> 0"
    and "in_buf_wrptr p \<ge> 1 + 8 + (uint (drop_bit 5 (input_buffer p 0) AND 0x03) + 1)"
    and "\<not> header_valid p \<or> cid_match (input_buffer p) 1 (connection_id i)"
  shows "validation_error (validate_header i p q) = INVALID_PACKET_TYPE"
proof -
  have "0 \<le> uint (drop_bit 5 (input_buffer p 0) AND 0x03)" by simp
  with assms(3) have "in_buf_wrptr p > 0" and "\<not> in_buf_wrptr p < 10" by linarith+
  with assms show ?thesis
    by (auto simp: validate_header_def validate_short_def Let_def invalid_if_def set_invalid_def)
qed

end
